theory Spec2Isabelle
  imports Main "HOL-Library.AList" "HOL-Library.Multiset" "HOL-Library.Char_ord"
    "HOL-Library.List_Lexorder"
begin

section \<open>The bookmark tree of BtBookmarksModelPrivate\<close>

text \<open>
  The three classes of \<^verbatim>\<open>btbookmarksmodel.cpp\<close> form one hierarchy:
  \<^verbatim>\<open>BookmarkItemBase\<close> (what \<^verbatim>\<open>insertRows\<close> creates),
  \<^verbatim>\<open>BookmarkFolder\<close> and \<^verbatim>\<open>BookmarkItem\<close>, the last with the fields
  \<^verbatim>\<open>m_key\<close>, \<^verbatim>\<open>m_description\<close> and \<^verbatim>\<open>m_moduleName\<close>. The dynamic type of an
  object is its \<open>variant\<close>, so \<^verbatim>\<open>dynamic_cast<BookmarkFolder *>(i)\<close> succeeds exactly when
  \<open>variant i = IsFolder\<close>.

  An object is identified by its address \<open>addr\<close>: the source compares items as pointers
  (\<^verbatim>\<open>this == item\<close>, \<^verbatim>\<open>indexOf(item)\<close>). The children list \<^verbatim>\<open>m_children\<close> owns its
  items, so the tree is a value. The back pointer \<^verbatim>\<open>m_parent\<close>, the icon and the item
  flags are read by none of the functions below and are left out.
\<close>

datatype variant =
    IsBase
  | IsFolder
  | IsBookmark (m_key: string) (m_description: string) (m_moduleName: string)

datatype item =
  Item (addr: nat) (variant: variant) (m_text: string) (m_tooltip: string)
       (m_children: "item list")

definition isFolder :: "item \<Rightarrow> bool" where
  "isFolder i = (variant i = IsFolder)"

definition isBookmark :: "item \<Rightarrow> bool" where
  "isBookmark i = (case variant i of IsBookmark k d m \<Rightarrow> True | _ \<Rightarrow> False)"

definition setText :: "string \<Rightarrow> item \<Rightarrow> item" where
  "setText t i = Item (addr i) (variant i) t (m_tooltip i) (m_children i)"

definition setChildren :: "item list \<Rightarrow> item \<Rightarrow> item" where
  "setChildren cs i = Item (addr i) (variant i) (m_text i) (m_tooltip i) cs"

text \<open>\<^verbatim>\<open>setKey\<close>, \<^verbatim>\<open>setDescription\<close> and \<^verbatim>\<open>setModule\<close> exist on a BookmarkItem only.\<close>

definition setKey :: "string \<Rightarrow> item \<Rightarrow> item" where
  "setKey k i = (case variant i of
       IsBookmark k0 d m \<Rightarrow> Item (addr i) (IsBookmark k d m) (m_text i) (m_tooltip i) (m_children i)
     | _ \<Rightarrow> i)"

definition setDescription :: "string \<Rightarrow> item \<Rightarrow> item" where
  "setDescription d i = (case variant i of
       IsBookmark k d0 m \<Rightarrow> Item (addr i) (IsBookmark k d m) (m_text i) (m_tooltip i) (m_children i)
     | _ \<Rightarrow> i)"

definition setModule :: "string \<Rightarrow> item \<Rightarrow> item" where
  "setModule m i = (case variant i of
       IsBookmark k d m0 \<Rightarrow> Item (addr i) (IsBookmark k d m) (m_text i) (m_tooltip i) (m_children i)
     | _ \<Rightarrow> i)"

text \<open>All items below an item, the item itself excluded, in depth-first order.\<close>

fun descendants :: "item \<Rightarrow> item list" where
  "descendants (Item a v t tt cs) = concat (map (\<lambda>c. c # descendants c) cs)"

definition subtree :: "item \<Rightarrow> item list" where
  "subtree i = i # descendants i"

subsection \<open>BookmarkFolder::hasDescendant\<close>

text \<open>
  \<^verbatim>\<open>
  bool BookmarkFolder::hasDescendant(BookmarkItemBase const * const item) const {
      if (this == item) return true;
      if (getChildList().indexOf(const_cast<BookmarkItemBase *>(item)) > -1) return true;
      for (auto const * const childItem : getChildList())
          if (BookmarkFolder const * const folder = dynamic_cast<BookmarkFolder const *>(childItem))
              if (folder->hasDescendant(childItem)) return true;
      return false;
  }
  \<close>
  The recursive call passes \<^verbatim>\<open>childItem\<close>, the folder itself, not \<^verbatim>\<open>item\<close>.
\<close>

fun hasDescendant :: "item \<Rightarrow> nat \<Rightarrow> bool" where
  "hasDescendant (Item a v t tt cs) p =
     (if a = p then True
      else if p \<in> set (map addr cs) then True
      else list_ex (\<lambda>childItem. variant childItem = IsFolder
                       \<and> hasDescendant childItem (addr childItem)) cs)"

section \<open>The environment: module registry, locale, build\<close>

text \<open>
  The item classes consult collaborators that are not part of this file:
  \<^verbatim>\<open>CSwordBackend::instance().findModuleByName\<close>, the verse key localisation
  (\<^verbatim>\<open>CSwordVerseKey::setLocale\<close> and \<^verbatim>\<open>key()\<close>), \<^verbatim>\<open>QObject::tr\<close>,
  \<^verbatim>\<open>QString::localeAwareCompare\<close>, \<^verbatim>\<open>util::directory::getUserBaseDir\<close> and the
  standard library's \<^verbatim>\<open>std::sort\<close>. They are the fields of \<open>env\<close>, so every
  statement below holds for any registry, any locale and any implementation of the sort.
  \<open>debugBuild\<close> says whether the debug-only code is compiled in: the \<^verbatim>\<open>#ifdef QT_DEBUG\<close>
  block of \<^verbatim>\<open>item()\<close> and the assertions.
\<close>

datatype moduleType = Bible | Commentary | GenericBook | Lexicon | OtherModule

record moduleInfo =
  modName :: string
  modType :: moduleType
  modDescription :: string

record env =
  findModuleByName :: "string \<Rightarrow> moduleInfo option"
  localizedKey :: "moduleInfo \<Rightarrow> string \<Rightarrow> string"
  tr :: "string \<Rightarrow> string"
  localeAwareCompare :: "string \<Rightarrow> string \<Rightarrow> int"
  stdSort :: "(item \<Rightarrow> item \<Rightarrow> bool) \<Rightarrow> item list \<Rightarrow> item list"
  defaultBookmarksFile :: string
  debugBuild :: bool

datatype error = AssertionFailed | NullDereference | InvalidPointer

text \<open>
  Modelled from the spec: \<^verbatim>\<open>BT_ASSERT\<close> is defined in \<^verbatim>\<open>util/btassert.h\<close>, which is not
  among the sources. The spec says of a violated invariant that it is "detected via assertion,
  fatal in debug builds": a debug build ends the call, any other build goes on.
\<close>

definition BT_ASSERT :: "env \<Rightarrow> bool \<Rightarrow> error + 'a \<Rightarrow> error + 'a" where
  "BT_ASSERT be c k = (if debugBuild be \<and> \<not> c then Inl AssertionFailed else k)"

text \<open>
  \<^verbatim>\<open>toHeader\<close> is \<^verbatim>\<open>QStringLiteral("%1 (%2)").arg(key).arg(moduleName)\<close>; the place markers
  are taken to be replaced by the two strings as they are (a key that itself holds a place
  marker is outside the model).
\<close>

definition toHeader :: "string \<Rightarrow> string \<Rightarrow> string" where
  "toHeader k moduleName = k @ '' ('' @ moduleName @ '')''"

text \<open>\<^verbatim>\<open>BookmarkItem::key()\<close>, from the english key and the module name of the item.\<close>

definition key :: "env \<Rightarrow> string \<Rightarrow> string \<Rightarrow> string" where
  "key be englishKeyName moduleName =
     (case findModuleByName be moduleName of
        None \<Rightarrow> englishKeyName
      | Some m \<Rightarrow>
          if modType m = Bible \<or> modType m = Commentary then localizedKey be m englishKeyName
          else englishKeyName)"

text \<open>The text both one-argument constructors of BookmarkItem set:
  \<^verbatim>\<open>toHeader(key(), module() ? module()->name() : QObject::tr("unknown"))\<close>.\<close>

definition headerOf :: "env \<Rightarrow> string \<Rightarrow> string \<Rightarrow> string" where
  "headerOf be englishKeyName moduleName =
     toHeader (key be englishKeyName moduleName)
       (case findModuleByName be moduleName of
          Some m \<Rightarrow> modName m
        | None \<Rightarrow> tr be ''unknown'')"

subsection \<open>Constructors\<close>

text \<open>Each constructor takes the address \<^verbatim>\<open>new\<close> returns as its first argument.\<close>

definition new_BookmarkItemBase :: "nat \<Rightarrow> item" where
  "new_BookmarkItemBase a = Item a IsBase [] [] []"

definition new_BookmarkFolder :: "nat \<Rightarrow> string \<Rightarrow> item" where
  "new_BookmarkFolder a name = Item a IsFolder name [] []"

text \<open>\<^verbatim>\<open>BookmarkItem(BookmarkItemBase * parent)\<close>: the three fields are still empty when
  the constructor computes the text.\<close>

definition new_BookmarkItem :: "env \<Rightarrow> nat \<Rightarrow> item" where
  "new_BookmarkItem be a = Item a (IsBookmark [] [] []) (headerOf be [] []) [] []"

text \<open>\<^verbatim>\<open>BookmarkItem(const BookmarkItem & other)\<close>: the base copy constructor copies text and
  tooltip and leaves the children empty; the body then sets the text from the copied fields.\<close>

definition copy_BookmarkItem :: "env \<Rightarrow> nat \<Rightarrow> item \<Rightarrow> item" where
  "copy_BookmarkItem be a other =
     (case variant other of
        IsBookmark k d m \<Rightarrow> Item a (IsBookmark k d m) (headerOf be k m) (m_tooltip other) []
      | _ \<Rightarrow> other)"

subsection \<open>BookmarkFolder::deepCopy\<close>

text \<open>
  The new folder is allocated first, then the copies of the children in order; a child that
  is neither a bookmark nor a folder is not copied. The second component is the next free
  address.
\<close>

fun deepCopy :: "env \<Rightarrow> item \<Rightarrow> nat \<Rightarrow> item \<times> nat"
  and deepCopyList :: "env \<Rightarrow> item list \<Rightarrow> nat \<Rightarrow> item list \<times> nat" where
  "deepCopy be (Item a v t tt cs) n =
     (case deepCopyList be cs (n + 1) of
        (cs', n') \<Rightarrow> (Item n IsFolder t [] cs', n'))"
| "deepCopyList be [] n = ([], n)"
| "deepCopyList be (subitem # rest) n =
     (case variant subitem of
        IsBookmark k d m \<Rightarrow>
          (case deepCopyList be rest (n + 1) of
             (rest', n') \<Rightarrow> (copy_BookmarkItem be n subitem # rest', n'))
      | IsFolder \<Rightarrow>
          (case deepCopy be subitem n of
             (c, n') \<Rightarrow>
               (case deepCopyList be rest n' of
                  (rest', n'') \<Rightarrow> (c # rest', n'')))
      | IsBase \<Rightarrow> deepCopyList be rest n)"

section \<open>The XML documents\<close>

text \<open>
  A \<^verbatim>\<open>QDomNode\<close> is an element with its tag, its attributes and its child nodes, or a node
  of another kind (text, comment, processing instruction), for which \<^verbatim>\<open>toElement()\<close>
  gives the null element. The text of a document is Qt's business
  (\<^verbatim>\<open>QDomDocument::toString\<close> and \<^verbatim>\<open>setContent\<close>): a document text is represented by
  the document element \<^verbatim>\<open>setContent\<close> builds from it, \<open>None\<close> when there is none (an
  empty or ill-formed text), and \<^verbatim>\<open>toString\<close> is taken to write a text that
  \<^verbatim>\<open>setContent\<close> reads back as the same document.
\<close>

datatype dom =
    Element string "(string \<times> string) list" "dom list"
  | OtherNode

type_synonym xmltext = "dom option"

text \<open>What the null element answers: an empty tag name, no attribute, no child.\<close>

fun tagName :: "dom \<Rightarrow> string" where
  "tagName (Element t as ks) = t"
| "tagName OtherNode = []"

fun hasAttribute :: "dom \<Rightarrow> string \<Rightarrow> bool" where
  "hasAttribute (Element t as ks) n = (map_of as n \<noteq> None)"
| "hasAttribute OtherNode n = False"

fun attribute :: "dom \<Rightarrow> string \<Rightarrow> string" where
  "attribute (Element t as ks) n = (case map_of as n of Some v \<Rightarrow> v | None \<Rightarrow> [])"
| "attribute OtherNode n = []"

fun childNodes :: "dom \<Rightarrow> dom list" where
  "childNodes (Element t as ks) = ks"
| "childNodes OtherNode = []"

fun setAttribute :: "string \<Rightarrow> string \<Rightarrow> dom \<Rightarrow> dom" where
  "setAttribute n v (Element t as ks) = Element t (AList.update n v as) ks"
| "setAttribute n v OtherNode = OtherNode"

fun appendChild :: "dom \<Rightarrow> dom \<Rightarrow> dom" where
  "appendChild new (Element t as ks) = Element t as (ks @ [new])"
| "appendChild new OtherNode = OtherNode"

definition createElement :: "string \<Rightarrow> dom" where
  "createElement t = Element t [] []"

subsection \<open>saveItem and serializeTreeFromRootItem\<close>

text \<open>
  \<^verbatim>\<open>saveItem(item, parentElement)\<close> appends at most one element to \<^verbatim>\<open>parentElement\<close>
  and returns the parent element so extended. An item that is neither a folder nor a bookmark
  writes nothing, and the children of a bookmark are not visited.
\<close>

fun saveItem :: "env \<Rightarrow> item \<Rightarrow> dom \<Rightarrow> dom"
  and saveItems :: "env \<Rightarrow> item list \<Rightarrow> dom \<Rightarrow> dom" where
  "saveItem be (Item a v t tt cs) parentElement =
     (case v of
        IsFolder \<Rightarrow>
          appendChild
            (saveItems be cs (setAttribute ''caption'' t (createElement ''Folder'')))
            parentElement
      | IsBookmark k d m \<Rightarrow>
          (let elem = createElement ''Bookmark'';
               elem = setAttribute ''key'' k elem;
               elem = setAttribute ''description'' d elem;
               elem = setAttribute ''modulename'' m elem;
               elem = setAttribute ''moduledescription''
                        (case findModuleByName be m of
                           Some mi \<Rightarrow> modDescription mi
                         | None \<Rightarrow> []) elem;
               elem = (if t \<noteq> [] then setAttribute ''title'' t elem else elem)
           in appendChild elem parentElement)
      | IsBase \<Rightarrow> parentElement)"
| "saveItems be [] parentElement = parentElement"
| "saveItems be (c # cs) parentElement = saveItems be cs (saveItem be c parentElement)"

definition CURRENT_SYNTAX_VERSION :: string where
  "CURRENT_SYNTAX_VERSION = ''1''"

definition serializeTreeFromRootItem :: "env \<Rightarrow> item \<Rightarrow> xmltext" where
  "serializeTreeFromRootItem be rootItem =
     Some (saveItems be (m_children rootItem)
             (setAttribute ''syntaxVersion'' CURRENT_SYNTAX_VERSION
                (createElement ''SwordBookmarks'')))"

subsection \<open>handleXmlElement\<close>

text \<open>
  \<^verbatim>\<open>handleXmlElement(element, parent)\<close> returns the new item, \<open>None\<close> for
  \<^verbatim>\<open>nullptr\<close>. A constructor called with a parent appends the new item to the parent's
  children; here the caller does it: \<open>handleChildNodes\<close> is the loop over
  \<^verbatim>\<open>element.childNodes()\<close> and returns the children the new folder ends up with.
  The natural number is the next free address.
\<close>

fun handleXmlElement :: "env \<Rightarrow> dom \<Rightarrow> nat \<Rightarrow> item option \<times> nat"
  and handleChildNodes :: "env \<Rightarrow> dom list \<Rightarrow> nat \<Rightarrow> item list \<times> nat" where
  "handleXmlElement be OtherNode n = (None, n)"
| "handleXmlElement be (Element t as ks) n =
     (if t = ''Folder'' then
        (let newFolder = new_BookmarkFolder n [];
             newFolder = (if hasAttribute (Element t as ks) ''caption''
                          then setText (attribute (Element t as ks) ''caption'') newFolder
                          else newFolder)
         in case handleChildNodes be ks (n + 1) of
              (cs, n') \<Rightarrow> (Some (setChildren cs newFolder), n'))
      else if t = ''Bookmark'' then
        (let e = Element t as ks;
             newBookmarkItem = new_BookmarkItem be n;
             newBookmarkItem = (if hasAttribute e ''modulename''
                                then setModule (attribute e ''modulename'') newBookmarkItem
                                else newBookmarkItem);
             newBookmarkItem = (if hasAttribute e ''key''
                                then setKey (attribute e ''key'') newBookmarkItem
                                else newBookmarkItem);
             newBookmarkItem = (if hasAttribute e ''description''
                                then setDescription (attribute e ''description'') newBookmarkItem
                                else newBookmarkItem);
             newBookmarkItem = (if hasAttribute e ''title''
                                then setText (attribute e ''title'') newBookmarkItem
                                else newBookmarkItem)
         in (Some newBookmarkItem, n + 1))
      else (None, n))"
| "handleChildNodes be [] n = ([], n)"
| "handleChildNodes be (k # ks) n =
     (case handleXmlElement be k n of
        (r, n') \<Rightarrow>
          (case handleChildNodes be ks n' of
             (cs, n'') \<Rightarrow> ((case r of None \<Rightarrow> [] | Some c \<Rightarrow> [c]) @ cs, n'')))"

section \<open>The model: BtBookmarksModel and its private part\<close>

text \<open>
  A file is absent, or it yields no text (it cannot be opened, or \<^verbatim>\<open>readAll\<close> returns the
  null string), or it holds a document text.
\<close>

datatype content = Unreadable | Text xmltext

text \<open>
  \<open>m_saveTimer\<close> is configured once, in the constructor (interval \<^verbatim>\<open>30 * 1000\<close>
  milliseconds, single shot), so its state is the time left until it fires, \<open>None\<close> when it
  is not active. \<open>timeoutSlots\<close> counts the connections \<^verbatim>\<open>BT_CONNECT\<close> has made from its
  \<^verbatim>\<open>timeout\<close> signal to \<^verbatim>\<open>slotSave\<close>. \<open>m_defaultModel\<close> is the static field, \<open>q_ptr\<close>
  the address of the model itself. \<open>nextAddr\<close> is the address the next \<^verbatim>\<open>new\<close> returns and
  \<open>files\<close> the file system. \<open>savesDone\<close> counts the calls of \<^verbatim>\<open>save\<close>; nothing reads it.
\<close>

record model =
  m_rootItem :: item
  m_saveTimer :: "nat option"
  timeoutSlots :: nat
  m_defaultModel :: "nat option"
  q_ptr :: nat
  nextAddr :: nat
  files :: "string \<Rightarrow> content option"
  savesDone :: nat

type_synonym index = "nat option"

definition saveInterval :: nat where
  "saveInterval = 30 * 1000"

text \<open>\<^verbatim>\<open>BtBookmarksModelPrivate(BtBookmarksModel * parent)\<close>, for a model at address \<open>q\<close>.\<close>

definition new_BtBookmarksModelPrivate ::
  "nat \<Rightarrow> nat option \<Rightarrow> (string \<Rightarrow> content option) \<Rightarrow> nat \<Rightarrow> model" where
  "new_BtBookmarksModelPrivate q dflt fs n =
     \<lparr> m_rootItem = new_BookmarkFolder n ''Root'', m_saveTimer = None, timeoutSlots = 0,
       m_defaultModel = dflt, q_ptr = q, nextAddr = n + 1, files = fs, savesDone = 0 \<rparr>"

subsection \<open>Pointers into the tree\<close>

text \<open>The object at an address, and the tree with one object replaced.\<close>

fun findItem :: "nat \<Rightarrow> item \<Rightarrow> item option"
  and findItemList :: "nat \<Rightarrow> item list \<Rightarrow> item option" where
  "findItem p (Item a v t tt cs) =
     (if a = p then Some (Item a v t tt cs) else findItemList p cs)"
| "findItemList p [] = None"
| "findItemList p (c # cs) =
     (case findItem p c of Some i \<Rightarrow> Some i | None \<Rightarrow> findItemList p cs)"

fun updateItem :: "nat \<Rightarrow> (item \<Rightarrow> item) \<Rightarrow> item \<Rightarrow> item" where
  "updateItem p f (Item a v t tt cs) =
     (if a = p then f (Item a v t tt cs) else Item a v t tt (map (updateItem p f) cs))"

text \<open>
  \<^verbatim>\<open>item(index)\<close> returns the internal pointer of a valid index and the root item for the
  invalid index. Only a debug build checks that the pointer is an item of the tree: otherwise
  its loop runs off the end of \<^verbatim>\<open>items\<close>.
\<close>

definition item :: "env \<Rightarrow> model \<Rightarrow> index \<Rightarrow> error + nat" where
  "item be s idx =
     (case idx of
        Some p \<Rightarrow> BT_ASSERT be (findItem p (m_rootItem s) \<noteq> None) (Inr p)
      | None \<Rightarrow> Inr (addr (m_rootItem s)))"

text \<open>Reading through a pointer; one that points to no item of the tree cannot be read.\<close>

definition deref :: "model \<Rightarrow> nat \<Rightarrow> error + item" where
  "deref s p = (case findItem p (m_rootItem s) of Some i \<Rightarrow> Inr i | None \<Rightarrow> Inl InvalidPointer)"

definition itemAt :: "env \<Rightarrow> model \<Rightarrow> index \<Rightarrow> error + item" where
  "itemAt be s idx = (case item be s idx of Inl e \<Rightarrow> Inl e | Inr p \<Rightarrow> deref s p)"

subsection \<open>insertChild and insertChildren\<close>

text \<open>
  \<^verbatim>\<open>QList::insert(i, value)\<close> of Qt 5 (the file needs \<^verbatim>\<open>QTextCodec\<close> in \<^verbatim>\<open>save\<close>):
  the value is prepended when \<open>i \<le> 0\<close> and appended when \<open>i\<close> is the size or more.
  \<^verbatim>\<open>insertChild\<close> asserts that the child is not among the children yet; every child
  inserted in this file has just been allocated, so that assertion is left out.
  A child that is \<^verbatim>\<open>nullptr\<close> is dereferenced by \<^verbatim>\<open>child->setParent(this)\<close>.
\<close>

definition qlist_insert :: "int \<Rightarrow> 'a \<Rightarrow> 'a list \<Rightarrow> 'a list" where
  "qlist_insert i x xs =
     (if i \<le> 0 then x # xs
      else if int (length xs) \<le> i then xs @ [x]
      else take (nat i) xs @ x # drop (nat i) xs)"

definition insertChild :: "int \<Rightarrow> item option \<Rightarrow> item \<Rightarrow> error + item" where
  "insertChild i child par =
     (case child of
        None \<Rightarrow> Inl NullDereference
      | Some c \<Rightarrow> Inr (setChildren (qlist_insert i c (m_children par)) par))"

fun insertChildren :: "int \<Rightarrow> item option list \<Rightarrow> item \<Rightarrow> error + item" where
  "insertChildren i [] par = Inr par"
| "insertChildren i (c # cs) par =
     (case insertChild i c par of
        Inl e \<Rightarrow> Inl e
      | Inr par' \<Rightarrow> insertChildren (i + 1) cs par')"

subsection \<open>needSave\<close>

definition needSave :: "model \<Rightarrow> model" where
  "needSave s =
     (if m_defaultModel s = Some (q_ptr s) then
        (if m_saveTimer s = None then s\<lparr>m_saveTimer := Some saveInterval\<rparr> else s)
      else s)"

subsection \<open>loadXmlFromFile and loadTree\<close>

text \<open>\<open>None\<close> is the null \<^verbatim>\<open>QString\<close>.\<close>

definition loadXmlFromFile :: "env \<Rightarrow> model \<Rightarrow> string \<Rightarrow> xmltext option" where
  "loadXmlFromFile be s fileName =
     (let fileName = (if fileName = [] then defaultBookmarksFile be else fileName)
      in case files s fileName of
           None \<Rightarrow> None
         | Some Unreadable \<Rightarrow> None
         | Some (Text xml) \<Rightarrow> Some xml)"

text \<open>
  The loop of \<^verbatim>\<open>loadTree\<close> over the children of the document element. It goes from a
  child to \<^verbatim>\<open>child.nextSibling().toElement()\<close>, so it ends at the last child and at the
  first node that is not an element. Whatever \<^verbatim>\<open>handleXmlElement\<close> returns is appended
  to \<^verbatim>\<open>itemList\<close>, \<^verbatim>\<open>nullptr\<close> included.
\<close>

fun loadTreeLoop :: "env \<Rightarrow> dom list \<Rightarrow> nat \<Rightarrow> item option list \<times> nat" where
  "loadTreeLoop be [] n = ([], n)"
| "loadTreeLoop be (OtherNode # rest) n = ([], n)"
| "loadTreeLoop be (Element t as ks # rest) n =
     (case handleXmlElement be (Element t as ks) n of
        (i, n') \<Rightarrow>
          (case loadTreeLoop be rest n' of
             (itemList, n'') \<Rightarrow> (i # itemList, n'')))"

definition loadTree :: "env \<Rightarrow> model \<Rightarrow> string \<Rightarrow> item option list \<times> nat" where
  "loadTree be s fileName =
     (case loadXmlFromFile be s fileName of
        None \<Rightarrow> ([], nextAddr s)
      | Some xml \<Rightarrow>
          (let document = (case xml of Some e \<Rightarrow> e | None \<Rightarrow> OtherNode)
           in if tagName document \<noteq> ''SwordBookmarks'' then ([], nextAddr s)
              else loadTreeLoop be (childNodes document) (nextAddr s)))"

subsection \<open>save and load\<close>

text \<open>
  Modelled from the spec: \<^verbatim>\<open>util::tool::savePlainFile\<close> is not among the sources; the spec
  says the text is written to the destination, "always overwriting".
\<close>

definition savePlainFile :: "string \<Rightarrow> xmltext \<Rightarrow> model \<Rightarrow> model" where
  "savePlainFile fileName xml s = s\<lparr>files := (files s)(fileName \<mapsto> Text xml)\<rparr>"

definition save :: "env \<Rightarrow> string \<Rightarrow> index \<Rightarrow> model \<Rightarrow> error + bool \<times> model" where
  "save be fileName rootItem s =
     (case itemAt be s rootItem of
        Inl e \<Rightarrow> Inl e
      | Inr i \<Rightarrow>
          (let serializedTree = serializeTreeFromRootItem be i;
               fileName = (if fileName = [] then defaultBookmarksFile be else fileName);
               s = savePlainFile fileName serializedTree s;
               s = (if m_saveTimer s \<noteq> None then s\<lparr>m_saveTimer := None\<rparr> else s)
           in Inr (True, s\<lparr>savesDone := savesDone s + 1\<rparr>)))"

definition load :: "env \<Rightarrow> string \<Rightarrow> index \<Rightarrow> model \<Rightarrow> error + bool \<times> model" where
  "load be fileName rootItem s =
     (case item be s rootItem of
        Inl e \<Rightarrow> Inl e
      | Inr i \<Rightarrow>
          (case loadTree be s fileName of
             (items, n) \<Rightarrow>
               (case (if rootItem = None \<and> fileName = [] then
                        BT_ASSERT be (m_defaultModel s = None)
                          (Inr (s\<lparr>nextAddr := n, timeoutSlots := timeoutSlots s + 1,
                                   m_defaultModel := Some (q_ptr s)\<rparr>))
                      else Inr (s\<lparr>nextAddr := n\<rparr>)) of
                  Inl e \<Rightarrow> Inl e
                | Inr s \<Rightarrow>
                    if length items = 0 then Inr (False, s)
                    else
                      (case deref s i of
                         Inl e \<Rightarrow> Inl e
                       | Inr it \<Rightarrow>
                           (case insertChildren (int (length (m_children it))) items it of
                              Inl e \<Rightarrow> Inl e
                            | Inr it' \<Rightarrow>
                                Inr (True,
                                     s\<lparr>m_rootItem :=
                                         updateItem i (\<lambda>x. it') (m_rootItem s)\<rparr>))))))"

text \<open>
  Modelled from the spec: \<^verbatim>\<open>slotSave\<close> is declared in \<^verbatim>\<open>btbookmarksmodel.h\<close>, which is not
  among the sources; the spec says "On timer expiry, \<^verbatim>\<open>save()\<close> is invoked with defaults".
\<close>

definition slotSave :: "env \<Rightarrow> model \<Rightarrow> error + model" where
  "slotSave be s = (case save be [] None s of Inl e \<Rightarrow> Inl e | Inr (b, s') \<Rightarrow> Inr s')"

text \<open>
  The event loop after \<open>d\<close> milliseconds. A single-shot \<^verbatim>\<open>QTimer\<close> that has run for its
  interval becomes inactive and emits \<^verbatim>\<open>timeout\<close> once; the signal calls every connected
  slot.
\<close>

fun emitTimeout :: "env \<Rightarrow> nat \<Rightarrow> model \<Rightarrow> error + model" where
  "emitTimeout be 0 s = Inr s"
| "emitTimeout be (Suc k) s =
     (case slotSave be s of Inl e \<Rightarrow> Inl e | Inr s' \<Rightarrow> emitTimeout be k s')"

definition elapse :: "env \<Rightarrow> nat \<Rightarrow> model \<Rightarrow> error + model" where
  "elapse be d s =
     (case m_saveTimer s of
        None \<Rightarrow> Inr s
      | Some left \<Rightarrow>
          if d < left then Inr (s\<lparr>m_saveTimer := Some (left - d)\<rparr>)
          else emitTimeout be (timeoutSlots s) (s\<lparr>m_saveTimer := None\<rparr>))"

subsection \<open>insertRows\<close>

text \<open>Every new \<^verbatim>\<open>BookmarkItemBase\<close> is inserted at the same \<open>row\<close>.\<close>

fun insertRowsLoop :: "int \<Rightarrow> nat \<Rightarrow> nat \<Rightarrow> item \<Rightarrow> item \<times> nat" where
  "insertRowsLoop row 0 n par = (par, n)"
| "insertRowsLoop row (Suc k) n par =
     insertRowsLoop row k (n + 1)
       (setChildren (qlist_insert row (new_BookmarkItemBase n) (m_children par)) par)"

text \<open>
  \<^verbatim>\<open>insertRows\<close> reads the parent item in the assertion (\<^verbatim>\<open>rowCount(parent)\<close>) and in
  every round of the loop; a release build that inserts nothing reads nothing.
\<close>

definition insertRows :: "env \<Rightarrow> int \<Rightarrow> int \<Rightarrow> index \<Rightarrow> model \<Rightarrow> error + bool \<times> model" where
  "insertRows be row cnt parent s =
     (case item be s parent of
        Inl e \<Rightarrow> Inl e
      | Inr p \<Rightarrow>
          if debugBuild be \<or> 0 < cnt then
            (case deref s p of
               Inl e \<Rightarrow> Inl e
             | Inr par \<Rightarrow>
                 BT_ASSERT be (row + cnt - 1 \<le> int (length (m_children par)))
                   (case insertRowsLoop row (nat cnt) (nextAddr s) par of
                      (par', n) \<Rightarrow>
                        Inr (True,
                             s\<lparr>m_rootItem := updateItem p (\<lambda>x. par') (m_rootItem s),
                               nextAddr := n\<rparr>)))
          else Inr (True, s))"

subsection \<open>copyItems\<close>

text \<open>The local variables of \<^verbatim>\<open>copyItems\<close>, and the next free address.\<close>

record copyVars =
  bookmarksOnly :: bool
  targetIncluded :: bool
  moreThanOneFolder :: bool
  newList :: "item list"
  heapNext :: nat

text \<open>
  The \<^verbatim>\<open>for\<close> loop over \<^verbatim>\<open>toCopy\<close>; a \<^verbatim>\<open>break\<close> returns the variables as they are.
  \<open>cnt\<close> is \<^verbatim>\<open>toCopy.count()\<close>. In the \<^verbatim>\<open>else\<close> branch the source dereferences
  \<^verbatim>\<open>d->itemAs<BookmarkItem>(index)\<close>, which is \<^verbatim>\<open>nullptr\<close> for an item that is not a
  bookmark.
\<close>

fun copyItemsLoop ::
  "env \<Rightarrow> model \<Rightarrow> index \<Rightarrow> nat \<Rightarrow> index list \<Rightarrow> copyVars \<Rightarrow> error + copyVars" where
  "copyItemsLoop be s parent cnt [] v = Inr v"
| "copyItemsLoop be s parent cnt (index # rest) v =
     (case itemAt be s index of
        Inl e \<Rightarrow> Inl e
      | Inr i \<Rightarrow>
          if variant i = IsFolder then
            (let v = v\<lparr>bookmarksOnly := False\<rparr> in
             if 1 < cnt then Inr (v\<lparr>moreThanOneFolder := True\<rparr>)
             else
               (case item be s parent of
                  Inl e \<Rightarrow> Inl e
                | Inr p \<Rightarrow>
                    if hasDescendant i p then Inr (v\<lparr>targetIncluded := True\<rparr>)
                    else copyItemsLoop be s parent cnt rest v))
          else if isBookmark i then
            copyItemsLoop be s parent cnt rest
              (v\<lparr>newList := newList v @ [copy_BookmarkItem be (heapNext v) i],
                 heapNext := heapNext v + 1\<rparr>)
          else Inl NullDereference)"

text \<open>\<^verbatim>\<open>index(row, 0, parent)\<close>, from the item \<^verbatim>\<open>parent\<close> points to.\<close>

definition indexIn :: "item \<Rightarrow> int \<Rightarrow> index" where
  "indexIn i row =
     (if row < int (length (m_children i)) \<and> 0 \<le> row
      then Some (addr (m_children i ! nat row)) else None)"

definition copyItems ::
  "env \<Rightarrow> int \<Rightarrow> index \<Rightarrow> index list \<Rightarrow> model \<Rightarrow> error + index list \<times> model" where
  "copyItems be row parent toCopy s =
     (case copyItemsLoop be s parent (length toCopy) toCopy
             \<lparr> bookmarksOnly = True, targetIncluded = False, moreThanOneFolder = False,
               newList = [], heapNext = nextAddr s \<rparr> of
        Inl e \<Rightarrow> Inl e
      | Inr v \<Rightarrow>
          (case (if \<not> bookmarksOnly v \<and> length toCopy = 1 then
                   (case itemAt be s (toCopy ! 0) of
                      Inl e \<Rightarrow> Inl e
                    | Inr f \<Rightarrow>
                        (case deepCopy be f (heapNext v) of
                           (c, n) \<Rightarrow> Inr (v\<lparr>newList := newList v @ [c], heapNext := n\<rparr>)))
                 else Inr v) of
             Inl e \<Rightarrow> Inl e
           | Inr v \<Rightarrow>
               (let v = (if \<not> bookmarksOnly v \<and> 1 < length toCopy
                         then v\<lparr>moreThanOneFolder := True\<rparr> else v);
                    s = s\<lparr>nextAddr := heapNext v\<rparr>
                in if moreThanOneFolder v \<or> targetIncluded v then Inr ([], s)
                   else
                     (case itemAt be s parent of
                        Inl e \<Rightarrow> Inl e
                      | Inr par \<Rightarrow>
                          (case insertChildren row (map Some (newList v)) par of
                             Inl e \<Rightarrow> Inl e
                           | Inr par' \<Rightarrow>
                               Inr (map (\<lambda>k. indexIn par' (row + int k))
                                        [0 ..< length (newList v)],
                                    needSave
                                      (s\<lparr>m_rootItem :=
                                           updateItem (addr par) (\<lambda>x. par')
                                             (m_rootItem s)\<rparr>)))))))"

subsection \<open>sortItems\<close>

datatype sortOrder = AscendingOrder | DescendingOrder

definition BtBookmarksModelSortAscending :: "env \<Rightarrow> item \<Rightarrow> item \<Rightarrow> bool" where
  "BtBookmarksModelSortAscending be i1 i2 = (localeAwareCompare be (m_text i1) (m_text i2) < 0)"

definition BtBookmarksModelSortDescending :: "env \<Rightarrow> item \<Rightarrow> item \<Rightarrow> bool" where
  "BtBookmarksModelSortDescending be i1 i2 = (localeAwareCompare be (m_text i1) (m_text i2) > 0)"

definition comparator :: "env \<Rightarrow> sortOrder \<Rightarrow> item \<Rightarrow> item \<Rightarrow> bool" where
  "comparator be order =
     (if order = AscendingOrder then BtBookmarksModelSortAscending be
      else BtBookmarksModelSortDescending be)"

text \<open>
  \<^verbatim>\<open>std::sort(begin, end, comp)\<close> is \<open>stdSort be comp\<close>: which of the admissible
  results it returns is the library's choice, and nothing is assumed of it here.
\<close>

text \<open>
  The first loop of \<^verbatim>\<open>sortItems\<close>: \<^verbatim>\<open>items\<close> starts as the root and every item
  visited appends its children, so the list ends as the items of the tree in breadth-first
  order. The argument is the part of the list not visited yet.
\<close>

function collectItems :: "item list \<Rightarrow> item list" where
  "collectItems [] = []"
| "collectItems (i # queue) = i # collectItems (queue @ m_children i)"
  by pat_completeness auto
termination
proof (relation "measure (\<lambda>q. sum_list (map size q))")
  show "wf (measure (\<lambda>q. sum_list (map size q)))" by simp
next
  fix i :: item and queue :: "item list"
  have "sum_list (map size (m_children i)) < size i"
    by (cases i) (simp add: size_list_conv_sum_list)
  then show "(queue @ m_children i, i # queue) \<in> measure (\<lambda>q. sum_list (map size q))"
    by simp
qed

text \<open>The body of the second loop, for the folder at address \<open>f\<close>.\<close>

definition sortChildrenOf :: "env \<Rightarrow> sortOrder \<Rightarrow> nat \<Rightarrow> model \<Rightarrow> model" where
  "sortChildrenOf be order f s =
     needSave
       (s\<lparr>m_rootItem :=
            updateItem f
              (\<lambda>i. setChildren (stdSort be (comparator be order) (m_children i)) i)
              (m_rootItem s)\<rparr>)"

definition sortItems :: "env \<Rightarrow> index \<Rightarrow> sortOrder \<Rightarrow> model \<Rightarrow> error + model" where
  "sortItems be parent order s =
     (case itemAt be s parent of
        Inl e \<Rightarrow> Inl e
      | Inr f \<Rightarrow>
          if variant f = IsFolder then
            (let parents =
                   (if addr f = addr (m_rootItem s)
                    then map addr (filter isFolder (collectItems [f]))
                    else [addr f])
             in Inr (fold (sortChildrenOf be order) parents s))
          else Inr s)"

section \<open>Notions the statements use\<close>

text \<open>
  \<open>inFolderSubtree f p\<close>: the item at address \<open>p\<close> is \<open>f\<close>, a child of \<open>f\<close>, or lies
  below \<open>f\<close> with folders only between the two.
\<close>

fun inFolderSubtree :: "item \<Rightarrow> nat \<Rightarrow> bool" where
  "inFolderSubtree (Item a v t tt cs) p =
     (a = p \<or> p \<in> set (map addr cs)
      \<or> list_ex (\<lambda>c. variant c = IsFolder \<and> inFolderSubtree c p) cs)"

text \<open>
  What the bookmarks file is to keep of an item: whether it is a folder or a bookmark (with
  key, description and module name), its text (the caption of a folder, the title of a
  bookmark), and its children in their order. Addresses and tooltips are not part of it.
\<close>

datatype shape = Shape variant string "shape list"

fun shapeOf :: "item \<Rightarrow> shape" where
  "shapeOf (Item a v t tt cs) = Shape v t (map shapeOf cs)"

text \<open>
  The items \<^verbatim>\<open>saveItem\<close> writes in full: folders whose children are such items, and
  bookmarks with a text and without children.
\<close>

fun savable :: "item \<Rightarrow> bool" where
  "savable (Item a v t tt cs) =
     (case v of
        IsFolder \<Rightarrow> list_all savable cs
      | IsBookmark k d m \<Rightarrow> t \<noteq> [] \<and> cs = []
      | IsBase \<Rightarrow> False)"

text \<open>The elements \<^verbatim>\<open>saveItem\<close> appends for an item, as one expression.\<close>

fun xmlOf :: "env \<Rightarrow> item \<Rightarrow> dom list" where
  "xmlOf be (Item a v t tt cs) =
     (case v of
        IsFolder \<Rightarrow> [Element ''Folder'' [(''caption'', t)] (concat (map (xmlOf be) cs))]
      | IsBookmark k d m \<Rightarrow>
          [Element ''Bookmark''
             ([(''key'', k), (''description'', d), (''modulename'', m),
               (''moduledescription'',
                  case findModuleByName be m of Some mi \<Rightarrow> modDescription mi | None \<Rightarrow> [])]
              @ (if t \<noteq> [] then [(''title'', t)] else [])) []]
      | IsBase \<Rightarrow> [])"

text \<open>Only folders have children, in the whole subtree of an item.\<close>

fun onlyFoldersHaveChildren :: "item \<Rightarrow> bool" where
  "onlyFoldersHaveChildren (Item a v t tt cs) =
     ((v = IsFolder \<or> cs = []) \<and> list_all onlyFoldersHaveChildren cs)"

text \<open>
  What the standard promises of \<^verbatim>\<open>std::sort\<close>: for a comparator that is a strict weak
  ordering (asymmetric, and "not less" is transitive), the result holds the same items and
  no item of it is less than one before it. The order of items the comparator does not
  tell apart is left open.
\<close>

definition strictWeakOrdering :: "('a \<Rightarrow> 'a \<Rightarrow> bool) \<Rightarrow> bool" where
  "strictWeakOrdering lt =
     ((\<forall>x y. lt x y \<longrightarrow> \<not> lt y x) \<and> (\<forall>x y z. \<not> lt y x \<longrightarrow> \<not> lt z y \<longrightarrow> \<not> lt z x))"

definition sortContract :: "env \<Rightarrow> bool" where
  "sortContract be =
     (\<forall>lt xs. strictWeakOrdering lt \<longrightarrow>
        mset (stdSort be lt xs) = mset xs
        \<and> sorted_wrt (\<lambda>x y. \<not> lt y x) (stdSort be lt xs))"

text \<open>
  A list of items is in ascending order when \<^verbatim>\<open>localeAwareCompare\<close> of the texts of an
  item and any later one is not positive, and in descending order when it is not negative.
\<close>

definition inOrder :: "env \<Rightarrow> sortOrder \<Rightarrow> item list \<Rightarrow> bool" where
  "inOrder be order xs =
     sorted_wrt
       (\<lambda>x y. if order = AscendingOrder
               then localeAwareCompare be (m_text x) (m_text y) \<le> 0
               else 0 \<le> localeAwareCompare be (m_text x) (m_text y)) xs"

text \<open>What the second loop of \<^verbatim>\<open>sortItems\<close> does to one folder, for a sort \<open>srt\<close>.\<close>

definition sortChildren :: "(item list \<Rightarrow> item list) \<Rightarrow> item \<Rightarrow> item" where
  "sortChildren srt i = setChildren (srt (m_children i)) i"

text \<open>
  What sorting must leave alone: an item's address, kind, text and tooltip, with the
  addresses of its children as a collection (\<open>itemInfo\<close>), or with its children in
  their order, each by its address and text (\<open>itemRow\<close>).
\<close>

definition itemInfo :: "item \<Rightarrow> nat \<times> variant \<times> string \<times> string \<times> nat multiset" where
  "itemInfo i = (addr i, variant i, m_text i, m_tooltip i, mset (map addr (m_children i)))"

definition itemRow ::
  "item \<Rightarrow> nat \<times> variant \<times> string \<times> string \<times> (nat \<times> string) list" where
  "itemRow i =
     (addr i, variant i, m_text i, m_tooltip i, map (\<lambda>c. (addr c, m_text c)) (m_children i))"

text \<open>The file \<^verbatim>\<open>loadXmlFromFile\<close> and \<^verbatim>\<open>save\<close> use for a file name.\<close>

definition effectiveName :: "env \<Rightarrow> string \<Rightarrow> string" where
  "effectiveName be fileName = (if fileName = [] then defaultBookmarksFile be else fileName)"

text \<open>
  A history of the model: calls of \<^verbatim>\<open>needSave\<close> and stretches of time in which
  nothing else happens, in milliseconds.
\<close>

datatype event = MarkDirty | Wait nat

fun play :: "env \<Rightarrow> event list \<Rightarrow> model \<Rightarrow> error + model" where
  "play be [] s = Inr s"
| "play be (MarkDirty # es) s = play be es (needSave s)"
| "play be (Wait d # es) s =
     (case elapse be d s of Inl e \<Rightarrow> Inl e | Inr s' \<Rightarrow> play be es s')"

fun totalWait :: "event list \<Rightarrow> nat" where
  "totalWait [] = 0"
| "totalWait (MarkDirty # es) = totalWait es"
| "totalWait (Wait d # es) = d + totalWait es"

section \<open>An example installation\<close>

text \<open>
  One module is installed, keys are shown as they are stored, nothing is translated, and
  strings compare by their character codes.
\<close>

definition kjv :: moduleInfo where
  "kjv = \<lparr> modName = ''KJV'', modType = Bible, modDescription = ''King James Version'' \<rparr>"

definition compareStrings :: "string \<Rightarrow> string \<Rightarrow> int" where
  "compareStrings a b = (if a < b then - 1 else if a = b then 0 else 1)"

text \<open>The sort of the example is the insertion sort.\<close>

fun insort_by :: "('a \<Rightarrow> 'a \<Rightarrow> bool) \<Rightarrow> 'a \<Rightarrow> 'a list \<Rightarrow> 'a list" where
  "insort_by lt x [] = [x]"
| "insort_by lt x (y # ys) = (if lt y x then y # insort_by lt x ys else x # y # ys)"

definition insertionSort :: "('a \<Rightarrow> 'a \<Rightarrow> bool) \<Rightarrow> 'a list \<Rightarrow> 'a list" where
  "insertionSort lt xs = foldr (insort_by lt) xs []"

definition exEnv :: "bool \<Rightarrow> env" where
  "exEnv dbg =
     \<lparr> findModuleByName = (\<lambda>n. if n = ''KJV'' then Some kjv else None),
       localizedKey = (\<lambda>m k. k),
       tr = (\<lambda>x. x),
       localeAwareCompare = compareStrings,
       stdSort = insertionSort,
       defaultBookmarksFile = ''bookmarks.xml'',
       debugBuild = dbg \<rparr>"

definition exFolderG :: item where
  "exFolderG = Item 2 IsFolder ''G'' [] []"

definition exFolderF :: item where
  "exFolderF =
     Item 1 IsFolder ''F'' []
       [exFolderG, Item 3 (IsBookmark ''John 3:16'' ''d'' ''KJV'') ''Key Verse'' [] []]"

definition exTree :: item where
  "exTree =
     Item 0 IsFolder ''Root'' []
       [exFolderF, Item 4 (IsBookmark ''Gen 1:1'' [] ''KJV'') ''Beginning'' [] []]"

definition exSmallTree :: item where
  "exSmallTree =
     Item 0 IsFolder ''Root'' []
       [Item 1 IsFolder ''F'' []
          [Item 2 (IsBookmark ''John 3:16'' ''d'' ''KJV'') ''Key Verse'' [] []]]"

text \<open>A model at address 100 that is the default model, with no file on disk.\<close>

definition exModel :: "item \<Rightarrow> nat \<Rightarrow> model" where
  "exModel root n =
     \<lparr> m_rootItem = root, m_saveTimer = None, timeoutSlots = 1,
       m_defaultModel = Some 100, q_ptr = 100, nextAddr = n, files = (\<lambda>f. None),
       savesDone = 0 \<rparr>"

text \<open>
  A bookmarks file with an element of another tag at the top level and inside a folder, and
  a file that is not a bookmarks file.
\<close>

definition exDocument :: dom where
  "exDocument =
     Element ''SwordBookmarks'' [(''syntaxVersion'', ''1'')]
       [Element ''Separator'' [] [],
        Element ''Folder'' [(''caption'', ''Favorites'')]
          [Element ''Separator'' [] [],
           Element ''Bookmark''
             [(''key'', ''John 3:16''), (''modulename'', ''KJV''), (''title'', ''Key Verse'')]
             []]]"

definition exFiles :: "string \<Rightarrow> content option" where
  "exFiles f =
     (if f = ''bookmarks.xml'' then Some (Text (Some exDocument))
      else if f = ''other.xml'' then Some (Text (Some (Element ''html'' [] [])))
      else None)"

text \<open>
  A new model at address 100 after its constructor has called \<^verbatim>\<open>load()\<close> with no
  bookmarks file on disk: it is the default model and its timer is connected once.
\<close>

definition exDefaultModel :: model where
  "exDefaultModel =
     (new_BtBookmarksModelPrivate 100 None (\<lambda>f. None) 0)
       \<lparr>timeoutSlots := 1, m_defaultModel := Some 100\<rparr>"

text \<open>A tree whose one bookmark has the empty text.\<close>

definition exUntitled :: item where
  "exUntitled =
     Item 0 IsFolder ''Root'' []
       [Item 1 (IsBookmark ''John 3:16'' [] ''KJV'') [] [] []]"

section \<open>Properties of hasDescendant\<close>

lemma hasDescendant_self: "hasDescendant f (addr f)"
  by (cases f) simp

lemma hasDescendant_unfold:
  "hasDescendant f p =
     (addr f = p \<or> p \<in> addr ` set (m_children f) \<or> (\<exists>c \<in> set (m_children f). variant c = IsFolder))"
  by (cases f) (auto simp: list_ex_iff hasDescendant_self)


lemma hasDescendant_folder_child:
  "c \<in> set (m_children f) \<Longrightarrow> variant c = IsFolder \<Longrightarrow> hasDescendant f p"
  by (auto simp: hasDescendant_unfold)

lemma inFolderSubtree_hasDescendant: "inFolderSubtree f p \<Longrightarrow> hasDescendant f p"
  by (cases f) (auto simp: list_ex_iff hasDescendant_self)

text \<open>
  C2. A folder answers true for itself (\<open>hasDescendant_self\<close>) and for every item below it
  through folders (\<open>inFolderSubtree_hasDescendant\<close>). It also answers true for an item that
  is neither the folder nor below it, as soon as one of its children is a folder
  (\<open>hasDescendant_folder_child\<close>): in the example tree the folder \<open>F\<close> at address 1 has the
  child folder \<open>G\<close>, the bookmark at address 4 is a sibling of \<open>F\<close>, not one of the items of
  its subtree, and \<open>F.hasDescendant\<close> of that bookmark is true.
\<close>

theorem hasDescendant_unrelated_item:
  "findItem 1 exTree = Some exFolderF \<and> findItem 4 exTree \<noteq> None
   \<and> 4 \<notin> set (map addr (subtree exFolderF))
   \<and> hasDescendant exFolderF 4"
  by (simp add: exTree_def exFolderF_def exFolderG_def subtree_def)

section \<open>copyItems rejects a folder copied into itself\<close>

text \<open>
  The selection is the one folder \<open>f\<close> and the destination \<open>parent\<close> points to
  \<open>f\<close> itself, to a child of \<open>f\<close>, or to an item below \<open>f\<close> with folders only in
  between: \<^verbatim>\<open>copyItems\<close> returns the empty list, and the model is as before but for the
  addresses the discarded deep copy has used up, so no children list has changed.
\<close>

lemma copyItems_folder_into_itself:
  assumes "itemAt be s folderIndex = Inr f" and "variant f = IsFolder"
    and "item be s parent = Inr p" and "inFolderSubtree f p"
  shows "copyItems be row parent [folderIndex] s
           = Inr ([], s\<lparr>nextAddr := snd (deepCopy be f (nextAddr s))\<rparr>)"
  using assms
  by (simp add: copyItems_def inFolderSubtree_hasDescendant split: prod.split)

lemma copyItems_folder_into_itself_example:
  "itemAt (exEnv True) (exModel exTree 5) (Some 1) = Inr exFolderF
   \<and> variant exFolderF = IsFolder
   \<and> item (exEnv True) (exModel exTree 5) (Some 2) = Inr 2
   \<and> inFolderSubtree exFolderF 2
   \<and> copyItems (exEnv True) 0 (Some 2) [Some 1] (exModel exTree 5)
       = Inr ([], (exModel exTree 5)\<lparr>nextAddr := 8\<rparr>)"
proof -
  have a: "itemAt (exEnv True) (exModel exTree 5) (Some 1) = Inr exFolderF"
    by (simp add: itemAt_def item_def deref_def BT_ASSERT_def exModel_def exTree_def exFolderF_def
        exFolderG_def exEnv_def)
  have b: "variant exFolderF = IsFolder" by (simp add: exFolderF_def)
  have c: "item (exEnv True) (exModel exTree 5) (Some 2) = Inr 2"
    by (simp add: item_def BT_ASSERT_def exModel_def exTree_def exFolderF_def exFolderG_def)
  have d: "inFolderSubtree exFolderF 2" by (simp add: exFolderF_def exFolderG_def)
  have e: "snd (deepCopy (exEnv True) exFolderF (nextAddr (exModel exTree 5))) = 8"
    by (simp add: exFolderF_def exFolderG_def exModel_def)
  show ?thesis
    using copyItems_folder_into_itself [OF a b c d, of 0] a b c d e by simp
qed

text \<open>In a tree where only folders have children, that covers every item below \<open>f\<close>.\<close>

lemma descendants_inFolderSubtree:
  "onlyFoldersHaveChildren f \<Longrightarrow> d \<in> set (descendants f) \<Longrightarrow> inFolderSubtree f (addr d)"
proof (induction f)
  case (Item a v t tt cs)
  from Item.prems(2) obtain c where c: "c \<in> set cs" "d = c \<or> d \<in> set (descendants c)"
    by auto
  show ?case
  proof (cases "d = c")
    case True
    then show ?thesis using c(1) by simp
  next
    case False
    then have dd: "d \<in> set (descendants c)" using c(2) by simp
    have oc: "onlyFoldersHaveChildren c" using Item.prems(1) c(1) by (simp add: list_all_iff)
    have "m_children c \<noteq> []" using dd by (cases c) auto
    then have "variant c = IsFolder" using oc by (cases c) auto
    moreover have "inFolderSubtree c (addr d)" by (rule Item.IH [OF c(1) oc dd])
    ultimately show ?thesis using c(1) by (auto simp: list_ex_iff)
  qed
qed

text \<open>
  C3. A folder copied onto itself or onto an item below it is to be rejected, with the empty
  list returned and no children list changed. That is so wherever only folders lie between
  the folder and the destination (\<open>copyItems_folder_into_itself\<close>). It is not so where
  the destination lies below an item that is not a folder, which \<^verbatim>\<open>hasDescendant\<close>
  does not look into. In the tree \<open>Root > F > bookmark\<close>, \<^verbatim>\<open>insertRows\<close> puts a
  new item (address 3) under the bookmark; it is a descendant of \<open>F\<close>, and copying
  \<open>F\<close> onto it is carried out: the result is the index of the copy (address 4) and the
  tree has changed.
\<close>

theorem copyItems_below_bookmark:
  "(case insertRows (exEnv True) 0 1 (Some 2) (exModel exSmallTree 3) of
      Inl e \<Rightarrow> False
    | Inr (b, s1) \<Rightarrow>
        (case itemAt (exEnv True) s1 (Some 1) of
           Inl e \<Rightarrow> False
         | Inr f \<Rightarrow>
             variant f = IsFolder \<and> 3 \<in> set (map addr (descendants f))
             \<and> (case copyItems (exEnv True) 0 (Some 3) [Some 1] s1 of
                   Inl e \<Rightarrow> False
                 | Inr (r, s2) \<Rightarrow> r = [Some 4] \<and> m_rootItem s2 \<noteq> m_rootItem s1)))"
  by code_simp

section \<open>copyItems rejects a folder that is not alone\<close>

lemma copyItemsLoop_folder_not_alone:
  assumes "1 < cnt"
    and "\<forall>idx \<in> set pre. \<exists>i. itemAt be s idx = Inr i \<and> isBookmark i"
    and "itemAt be s folderIndex = Inr f" and "variant f = IsFolder"
  shows "\<exists>v'. copyItemsLoop be s parent cnt (pre @ folderIndex # post) v = Inr v'
           \<and> moreThanOneFolder v' \<and> heapNext v' = heapNext v + length pre"
  using assms
proof (induction pre arbitrary: v)
  case Nil
  then show ?case by simp
next
  case (Cons idx pre)
  from Cons.prems obtain i where i: "itemAt be s idx = Inr i" "isBookmark i" by auto
  then have nf: "variant i \<noteq> IsFolder" by (auto simp: isBookmark_def)
  from Cons.prems have "\<forall>idx \<in> set pre. \<exists>i. itemAt be s idx = Inr i \<and> isBookmark i" by simp
  from Cons.IH [OF Cons.prems(1) this Cons.prems(3,4),
      of "v\<lparr>newList := newList v @ [copy_BookmarkItem be (heapNext v) i],
           heapNext := heapNext v + 1\<rparr>"] i nf
  show ?case by simp
qed

text \<open>
  The selection holds a folder and at least one more item, and every item selected before
  the first folder is a bookmark: \<^verbatim>\<open>copyItems\<close> returns the empty list, and the model
  is as before but for the addresses of the bookmark copies made and dropped, so no children
  list has changed. The items after the first folder are not looked at.
\<close>

lemma copyItems_folder_not_alone:
  assumes "pre \<noteq> [] \<or> post \<noteq> []"
    and "\<forall>idx \<in> set pre. \<exists>i. itemAt be s idx = Inr i \<and> isBookmark i"
    and "itemAt be s folderIndex = Inr f" and "variant f = IsFolder"
  shows "copyItems be row parent (pre @ folderIndex # post) s
           = Inr ([], s\<lparr>nextAddr := nextAddr s + length pre\<rparr>)"
proof -
  have len: "1 < length (pre @ folderIndex # post)"
    using assms(1) by (cases pre; cases post) auto
  from copyItemsLoop_folder_not_alone [OF len assms(2,3,4)]
  obtain v' where v': "copyItemsLoop be s parent (length (pre @ folderIndex # post))
      (pre @ folderIndex # post)
      \<lparr> bookmarksOnly = True, targetIncluded = False, moreThanOneFolder = False,
        newList = [], heapNext = nextAddr s \<rparr> = Inr v'"
    "moreThanOneFolder v'" "heapNext v' = nextAddr s + length pre"
    by fastforce
  have ne1: "(length (pre @ folderIndex # post) = 1) = False" using len by simp
  show ?thesis
    unfolding copyItems_def v'(1) ne1 using v'(2,3) by (simp add: Let_def)
qed

lemma copyItems_folder_not_alone_example:
  "(\<exists>i. itemAt (exEnv True) (exModel exTree 5) (Some 4) = Inr i \<and> isBookmark i)
   \<and> itemAt (exEnv True) (exModel exTree 5) (Some 1) = Inr exFolderF
   \<and> variant exFolderF = IsFolder
   \<and> copyItems (exEnv True) 0 None [Some 4, Some 1, Some 2] (exModel exTree 5)
       = Inr ([], (exModel exTree 5)\<lparr>nextAddr := 6\<rparr>)"
proof -
  have a: "[Some 4 :: nat option] \<noteq> [] \<or> [Some 2 :: nat option] \<noteq> []" by simp
  have b: "\<forall>idx \<in> set [Some 4]. \<exists>i. itemAt (exEnv True) (exModel exTree 5) idx = Inr i \<and> isBookmark i"
    by (simp add: itemAt_def item_def deref_def BT_ASSERT_def exModel_def exTree_def exFolderF_def
        exFolderG_def isBookmark_def)
  have c: "itemAt (exEnv True) (exModel exTree 5) (Some 1) = Inr exFolderF"
    by (simp add: itemAt_def item_def deref_def BT_ASSERT_def exModel_def exTree_def exFolderF_def
        exFolderG_def)
  have d: "variant exFolderF = IsFolder" by (simp add: exFolderF_def)
  have e: "nextAddr (exModel exTree 5) + length [Some 4 :: nat option] = 6"
    by (simp add: exModel_def)
  show ?thesis
    using copyItems_folder_not_alone [OF a b c d, of 0 None] a b c d e by simp
qed

text \<open>
  C4. A selection that holds a folder and at least one more item is to be rejected, with the
  empty list returned and no children list changed. That is so when every item selected
  before the first folder is a bookmark (\<open>copyItems_folder_not_alone\<close>). It is not so
  when an item that \<^verbatim>\<open>insertRows\<close> created is selected before the folder: in the
  example such an item (address 5) and the folder \<open>F\<close> are selected, and
  \<^verbatim>\<open>copyItems\<close> dereferences the null pointer \<^verbatim>\<open>d->itemAs<BookmarkItem>(index)\<close>
  instead of returning the empty list.
\<close>

theorem copyItems_placeholder_null_dereference:
  "(case insertRows (exEnv True) 0 1 None (exModel exTree 5) of
      Inl e \<Rightarrow> False
    | Inr (b, s1) \<Rightarrow>
        (case itemAt (exEnv True) s1 (Some 5) of
           Inl e \<Rightarrow> False
         | Inr i \<Rightarrow> variant i = IsBase)
        \<and> (case itemAt (exEnv True) s1 (Some 1) of
           Inl e \<Rightarrow> False
         | Inr f \<Rightarrow> variant f = IsFolder)
        \<and> (case copyItems (exEnv True) 0 None [Some 5, Some 1] s1 of
              Inl e \<Rightarrow> e = NullDereference
            | Inr r \<Rightarrow> False))"
  by code_simp


section \<open>load\<close>

lemma findItem_self [simp]: "findItem (addr i) i = Some i"
  by (cases i) simp

lemma findItem_addr:
  "findItem p t = Some i \<Longrightarrow> addr i = p"
  "findItemList p ts = Some i \<Longrightarrow> addr i = p"
  by (induction p t and p ts rule: findItem_findItemList.induct)
     (auto split: if_splits option.splits)

lemma updateItem_absent:
  "findItem p t = None \<Longrightarrow> updateItem p f t = t"
  "findItemList p ts = None \<Longrightarrow> map (updateItem p f) ts = ts"
  by (induction p t and p ts rule: findItem_findItemList.induct)
     (auto split: if_splits option.splits)

lemma findItem_updateItem:
  "findItem p t = Some i \<Longrightarrow> addr (f i) = p \<Longrightarrow> findItem p (updateItem p f t) = Some (f i)"
  "findItemList p ts = Some i \<Longrightarrow> addr (f i) = p
     \<Longrightarrow> findItemList p (map (updateItem p f) ts) = Some (f i)"
proof (induction p t and p ts rule: findItem_findItemList.induct)
  case (1 p a v t tt cs)
  show ?case
  proof (cases "a = p")
    case True
    then have i: "i = Item a v t tt cs" using "1.prems"(1) by simp
    have "findItem p (f i) = Some (f i)"
      using "1.prems"(2) findItem_self [of "f i"] by simp
    then show ?thesis using True i by simp
  next
    case False
    then show ?thesis using 1 by simp
  qed
next
  case (2 p)
  then show ?case by simp
next
  case (3 p c cs)
  then show ?case
    by (auto split: option.splits simp: updateItem_absent)
qed

lemma qlist_insert_end: "qlist_insert (int (length xs)) x xs = xs @ [x]"
  by (cases xs) (simp_all add: qlist_insert_def)

lemma insertChildren_end:
  "insertChildren (int (length (m_children par))) items par = Inr par'
     \<Longrightarrow> None \<notin> set items \<and> par' = setChildren (m_children par @ map the items) par"
proof (induction items arbitrary: par)
  case Nil
  then show ?case by (cases par) (simp add: setChildren_def)
next
  case (Cons c items)
  then obtain x where x: "c = Some x" by (cases c) (auto simp: insertChild_def)
  let ?par1 = "setChildren (m_children par @ [x]) par"
  have "insertChildren (int (length (m_children ?par1))) items ?par1 = Inr par'"
    using Cons.prems x
    by (simp add: insertChild_def qlist_insert_end setChildren_def add.commute)
  from Cons.IH [OF this] x show ?case by (simp add: setChildren_def)
qed

lemma loadTree_bad_source:
  assumes "files s (effectiveName be fileName) = None
         \<or> files s (effectiveName be fileName) = Some Unreadable
         \<or> files s (effectiveName be fileName) = Some (Text None)
         \<or> (\<exists>e. files s (effectiveName be fileName) = Some (Text (Some e))
                \<and> tagName e \<noteq> ''SwordBookmarks'')"
  shows "loadTree be s fileName = ([], nextAddr s)"
  using assms
  by (auto simp: loadTree_def loadXmlFromFile_def effectiveName_def Let_def)

text \<open>Whenever \<^verbatim>\<open>load\<close> returns, it has inserted nothing and returns false, or it has
  appended every item of \<^verbatim>\<open>loadTree\<close> to the children of the target and returns true.\<close>

lemma load_all_or_none:
  assumes "load be fileName rootItem s = Inr (b, s')"
  shows "(\<not> b \<and> m_rootItem s' = m_rootItem s)
       \<or> (b \<and> None \<notin> set (fst (loadTree be s fileName))
            \<and> (\<exists>p it. item be s rootItem = Inr p \<and> findItem p (m_rootItem s) = Some it
                 \<and> findItem p (m_rootItem s')
                     = Some (setChildren
                               (m_children it @ map the (fst (loadTree be s fileName))) it)))"
proof -
  obtain p where p: "item be s rootItem = Inr p"
    using assms by (auto simp: load_def split: sum.splits)
  obtain items n where l: "loadTree be s fileName = (items, n)" by force
  obtain s1 where s1: "(if rootItem = None \<and> fileName = [] then
                        BT_ASSERT be (m_defaultModel s = None)
                          (Inr (s\<lparr>nextAddr := n, timeoutSlots := timeoutSlots s + 1,
                                   m_defaultModel := Some (q_ptr s)\<rparr>))
                      else Inr (s\<lparr>nextAddr := n\<rparr>)) = Inr s1"
    using assms p l by (auto simp: load_def split: sum.splits)
  then have root1: "m_rootItem s1 = m_rootItem s"
    by (auto simp: BT_ASSERT_def split: if_splits)
  show ?thesis
  proof (cases "length items = 0")
    case True
    then show ?thesis using assms p l s1 root1 by (auto simp: load_def)
  next
    case False
    then obtain it it' where it: "deref s1 p = Inr it"
      and ins: "insertChildren (int (length (m_children it))) items it = Inr it'"
      and res: "b" "s' = s1\<lparr>m_rootItem := updateItem p (\<lambda>x. it') (m_rootItem s1)\<rparr>"
      using assms p l s1 by (auto simp: load_def split: sum.splits)
    from it root1 have f: "findItem p (m_rootItem s) = Some it"
      by (auto simp: deref_def split: option.splits)
    from insertChildren_end [OF ins]
    have nn: "None \<notin> set items" and it': "it' = setChildren (m_children it @ map the items) it"
      by auto
    have "addr it' = p" using it' findItem_addr(1) [OF f] by (simp add: setChildren_def)
    from findItem_updateItem(1) [OF f, of "\<lambda>x. it'", OF this]
    have "findItem p (m_rootItem s') = Some it'" using res root1 by simp
    then show ?thesis using res nn it' p f l by auto
  qed
qed

text \<open>
  C6. The file \<^verbatim>\<open>load\<close> reads is absent, yields no text, holds a text without a document
  element, or holds a document whose root tag is not \<^verbatim>\<open>SwordBookmarks\<close>: \<^verbatim>\<open>load\<close>
  returns false and the tree is the one before the call. And whatever the file holds, a call
  that returns has inserted none of the decoded items and returns false, or has appended all
  of them to the children of the target and returns true. In a debug build the call has to
  respect what the build checks: the target index points into the tree, and no default model
  is registered yet when the call is the one that registers it.
\<close>

theorem load_bad_source:
  assumes "debugBuild be \<longrightarrow>
             (\<forall>p. rootItem = Some p \<longrightarrow> findItem p (m_rootItem s) \<noteq> None)
             \<and> (rootItem = None \<and> fileName = [] \<longrightarrow> m_defaultModel s = None)"
    and "files s (effectiveName be fileName) = None
         \<or> files s (effectiveName be fileName) = Some Unreadable
         \<or> files s (effectiveName be fileName) = Some (Text None)
         \<or> (\<exists>e. files s (effectiveName be fileName) = Some (Text (Some e))
                \<and> tagName e \<noteq> ''SwordBookmarks'')"
  shows "(\<exists>s'. load be fileName rootItem s = Inr (False, s') \<and> m_rootItem s' = m_rootItem s)
       \<and> (\<forall>fileName' rootItem' b s'. load be fileName' rootItem' s = Inr (b, s') \<longrightarrow>
             (\<not> b \<and> m_rootItem s' = m_rootItem s)
             \<or> (b \<and> None \<notin> set (fst (loadTree be s fileName'))
                  \<and> (\<exists>p it. item be s rootItem' = Inr p
                       \<and> findItem p (m_rootItem s) = Some it
                       \<and> findItem p (m_rootItem s')
                           = Some (setChildren
                                     (m_children it
                                        @ map the (fst (loadTree be s fileName'))) it))))"
proof -
  have "\<exists>s'. load be fileName rootItem s = Inr (False, s') \<and> m_rootItem s' = m_rootItem s"
    using assms(1) loadTree_bad_source [OF assms(2)]
    by (cases rootItem) (auto simp: load_def item_def BT_ASSERT_def)
  then show ?thesis using load_all_or_none by blast
qed

theorem load_bad_source_witness:
  "files ((exModel exTree 5)\<lparr>files := exFiles\<rparr>) (effectiveName (exEnv True) ''other.xml'')
     = Some (Text (Some (Element ''html'' [] [])))
   \<and> tagName (Element ''html'' [] []) \<noteq> ''SwordBookmarks''
   \<and> findItem 1 (m_rootItem ((exModel exTree 5)\<lparr>files := exFiles\<rparr>)) = Some exFolderF
   \<and> (\<exists>s'. load (exEnv True) ''other.xml'' (Some 1) ((exModel exTree 5)\<lparr>files := exFiles\<rparr>)
              = Inr (False, s')
            \<and> m_rootItem s' = exTree)"
proof -
  let ?s = "(exModel exTree 5)\<lparr>files := exFiles\<rparr>"
  have f: "findItem 1 (m_rootItem ?s) = Some exFolderF"
    by (simp add: exModel_def exTree_def exFolderF_def exFolderG_def)
  have a: "debugBuild (exEnv True) \<longrightarrow>
             (\<forall>p. Some (1::nat) = Some p \<longrightarrow> findItem p (m_rootItem ?s) \<noteq> None)
             \<and> (Some (1::nat) = None \<and> ''other.xml'' = [] \<longrightarrow> m_defaultModel ?s = None)"
    using f by simp
  have b: "files ?s (effectiveName (exEnv True) ''other.xml'')
             = Some (Text (Some (Element ''html'' [] [])))"
    by (simp add: effectiveName_def exFiles_def)
  have c: "tagName (Element ''html'' [] []) \<noteq> ''SwordBookmarks''" by simp
  have r: "m_rootItem ?s = exTree" by (simp add: exModel_def)
  from b c have d: "files ?s (effectiveName (exEnv True) ''other.xml'') = None
         \<or> files ?s (effectiveName (exEnv True) ''other.xml'') = Some Unreadable
         \<or> files ?s (effectiveName (exEnv True) ''other.xml'') = Some (Text None)
         \<or> (\<exists>e. files ?s (effectiveName (exEnv True) ''other.xml'') = Some (Text (Some e))
                \<and> tagName e \<noteq> ''SwordBookmarks'')"
    by blast
  from load_bad_source [OF a d] r have
    "\<exists>s'. load (exEnv True) ''other.xml'' (Some 1) ?s = Inr (False, s') \<and> m_rootItem s' = exTree"
    by simp
  with b c f show ?thesis by blast
qed



section \<open>needSave and the save timer\<close>

lemma play_armed:
  assumes "m_defaultModel s = Some (q_ptr s)" and "m_saveTimer s = Some left"
    and "totalWait es < left"
  shows "play be es s = Inr (s\<lparr>m_saveTimer := Some (left - totalWait es)\<rparr>)"
  using assms
proof (induction es arbitrary: s left rule: totalWait.induct)
  case 1
  then show ?case by simp
next
  case (2 es)
  then show ?case by (simp add: needSave_def)
next
  case (3 d es)
  have "play be es (s\<lparr>m_saveTimer := Some (left - d)\<rparr>)
      = Inr (s\<lparr>m_saveTimer := Some (left - d)\<rparr>\<lparr>m_saveTimer := Some (left - d - totalWait es)\<rparr>)"
    using 3 by (intro "3.IH") auto
  then show ?case using 3 by (simp add: elapse_def)
qed

lemma timeout_saves_once:
  assumes "timeoutSlots s = 1" and "m_saveTimer s = Some left"
  shows "\<exists>s'. elapse be left s = Inr s' \<and> savesDone s' = savesDone s + 1
           \<and> m_saveTimer s' = None
           \<and> files s' (defaultBookmarksFile be)
               = Some (Text (serializeTreeFromRootItem be (m_rootItem s)))"
  using assms
  by (simp add: elapse_def slotSave_def save_def itemAt_def item_def deref_def savePlainFile_def
      Let_def)

lemma play_append:
  "play be (es @ es') s = (case play be es s of Inl e \<Rightarrow> Inl e | Inr s' \<Rightarrow> play be es' s')"
  by (induction es arbitrary: s rule: totalWait.induct) (auto split: sum.splits)

text \<open>
  C7. On the default model with its one connection and the timer at rest, the first
  \<^verbatim>\<open>needSave\<close> starts the timer with 30000 milliseconds. Whatever calls of
  \<^verbatim>\<open>needSave\<close> and waits follow, as long as the waits sum to less than 30000, no save has
  happened and the time left is 30000 less the time waited: no later call has restarted the
  timer. Waiting for the time left then runs \<^verbatim>\<open>save\<close> exactly once, 30000 milliseconds
  after the first call, and leaves the timer at rest.
\<close>

theorem needSave_debounce:
  assumes "m_defaultModel s = Some (q_ptr s)" and "timeoutSlots s = 1"
    and "m_saveTimer s = None" and "totalWait es < saveInterval"
  shows "play be (MarkDirty # es) s
           = Inr (s\<lparr>m_saveTimer := Some (saveInterval - totalWait es)\<rparr>)
       \<and> (\<exists>s'. play be (MarkDirty # es @ [Wait (saveInterval - totalWait es)]) s = Inr s'
               \<and> savesDone s' = savesDone s + 1 \<and> m_saveTimer s' = None)"
proof -
  let ?s1 = "needSave s"
  have s1: "?s1 = s\<lparr>m_saveTimer := Some saveInterval\<rparr>"
    using assms by (simp add: needSave_def)
  have a: "play be es ?s1 = Inr (?s1\<lparr>m_saveTimer := Some (saveInterval - totalWait es)\<rparr>)"
    using assms by (intro play_armed) (simp_all add: s1)
  then have b: "play be (MarkDirty # es) s
      = Inr (s\<lparr>m_saveTimer := Some (saveInterval - totalWait es)\<rparr>)"
    by (simp add: s1)
  let ?s2 = "s\<lparr>m_saveTimer := Some (saveInterval - totalWait es)\<rparr>"
  from timeout_saves_once [of ?s2 "saveInterval - totalWait es" be] assms
  obtain s' where "elapse be (saveInterval - totalWait es) ?s2 = Inr s'"
    "savesDone s' = savesDone s + 1" "m_saveTimer s' = None"
    by auto
  then have "\<exists>s'. play be (MarkDirty # es @ [Wait (saveInterval - totalWait es)]) s = Inr s'
               \<and> savesDone s' = savesDone s + 1 \<and> m_saveTimer s' = None"
    using b play_append [of be "MarkDirty # es" "[Wait (saveInterval - totalWait es)]" s]
    by simp
  with b show ?thesis by blast
qed

theorem needSave_debounce_witness:
  "load (exEnv True) [] None (new_BtBookmarksModelPrivate 100 None (\<lambda>f. None) 0)
     = Inr (False, exDefaultModel)
   \<and> m_defaultModel exDefaultModel = Some (q_ptr exDefaultModel)
   \<and> timeoutSlots exDefaultModel = 1 \<and> m_saveTimer exDefaultModel = None
   \<and> totalWait [Wait 10000, MarkDirty] < saveInterval
   \<and> play (exEnv True) [MarkDirty, Wait 10000, MarkDirty] exDefaultModel
       = Inr (exDefaultModel\<lparr>m_saveTimer := Some 20000\<rparr>)
   \<and> (\<exists>s'. play (exEnv True) [MarkDirty, Wait 10000, MarkDirty, Wait 20000] exDefaultModel
              = Inr s'
            \<and> savesDone s' = 1 \<and> m_saveTimer s' = None)"
proof -
  have l: "load (exEnv True) [] None (new_BtBookmarksModelPrivate 100 None (\<lambda>f. None) 0)
             = Inr (False, exDefaultModel)"
    by (simp add: load_def item_def BT_ASSERT_def loadTree_def loadXmlFromFile_def
        new_BtBookmarksModelPrivate_def exDefaultModel_def)
  have a: "m_defaultModel exDefaultModel = Some (q_ptr exDefaultModel)"
    and b: "timeoutSlots exDefaultModel = 1"
    and c: "m_saveTimer exDefaultModel = None"
    and d: "totalWait [Wait 10000, MarkDirty] < saveInterval"
    by (simp_all add: exDefaultModel_def new_BtBookmarksModelPrivate_def saveInterval_def)
  have e: "saveInterval - totalWait [Wait 10000, MarkDirty] = 20000"
    "savesDone exDefaultModel = 0"
    by (simp_all add: saveInterval_def exDefaultModel_def new_BtBookmarksModelPrivate_def)
  show ?thesis
    using needSave_debounce [OF a b c d, of "exEnv True"] l a b c d
    by (simp del: play.simps totalWait.simps add: e)
qed

section \<open>Decoding elements\<close>

lemma handleChildNodes_skips_unknown:
  "tagName k \<noteq> ''Folder'' \<Longrightarrow> tagName k \<noteq> ''Bookmark''
     \<Longrightarrow> handleChildNodes be (k # ks) n = handleChildNodes be ks n"
  by (cases k) (simp_all split: prod.split)

text \<open>
  C5. Inside a folder an element of another tag is passed over
  (\<open>handleChildNodes_skips_unknown\<close>). At the top level it is not: \<^verbatim>\<open>loadTree\<close> appends
  the \<^verbatim>\<open>nullptr\<close> that \<^verbatim>\<open>handleXmlElement\<close> returns for it to the list it returns. For
  the example file, whose first top-level element is \<^verbatim>\<open><Separator/>\<close>, the list is a null
  pointer followed by the folder, and \<^verbatim>\<open>load\<close> of that file dereferences the null pointer
  when it inserts the list.
\<close>

theorem loadTree_unknown_top_level_element:
  "fst (loadTree (exEnv True) (new_BtBookmarksModelPrivate 100 None exFiles 0) [])
     = [None,
        Some (Item 1 IsFolder ''Favorites'' []
                [Item 2 (IsBookmark ''John 3:16'' [] ''KJV'') ''Key Verse'' [] []])]
   \<and> (case load (exEnv True) [] None (new_BtBookmarksModelPrivate 100 None exFiles 0) of
         Inl e \<Rightarrow> e = NullDereference
       | Inr r \<Rightarrow> False)"
  by code_simp

lemma saveItem_title_attribute:
  "saveItem be (Item a (IsBookmark k d m) t tt cs) (Element pt pas pks)
     = Element pt pas (pks @ [e])
   \<Longrightarrow> hasAttribute e ''title'' = (t \<noteq> [])"
  by (auto simp: createElement_def Let_def)

lemma handleXmlElement_no_title:
  assumes "\<not> hasAttribute (Element ''Bookmark'' as ks) ''title''"
  shows "\<exists>i. handleXmlElement be (Element ''Bookmark'' as ks) n = (Some i, n + 1)
           \<and> m_text i = headerOf be [] [] \<and> m_text i \<noteq> []"
  using assms
  by (simp add: Let_def new_BookmarkItem_def setModule_def setKey_def setDescription_def
      setText_def headerOf_def toHeader_def)

text \<open>
  C9. A bookmark element is written with a \<^verbatim>\<open>title\<close> attribute exactly when the text of
  the bookmark is not empty (\<open>saveItem_title_attribute\<close>), and an element without one is
  decoded to a bookmark whose text is not empty (\<open>handleXmlElement_no_title\<close>). That text is
  the header the constructor makes before the attributes are read, from the empty key and the
  empty module name: for \<^verbatim>\<open><Bookmark key="John 3:16" modulename="KJV"/>\<close>, with the
  module \<open>KJV\<close> installed, it is \<open>'' (unknown)''\<close>, where the header of that key and that
  module is \<open>''John 3:16 (KJV)''\<close>.
\<close>

theorem handleXmlElement_without_title:
  "handleXmlElement (exEnv True)
     (Element ''Bookmark'' [(''key'', ''John 3:16''), (''modulename'', ''KJV'')] []) 7
     = (Some (Item 7 (IsBookmark ''John 3:16'' [] ''KJV'') '' (unknown)'' [] []), 8)
   \<and> headerOf (exEnv True) ''John 3:16'' ''KJV'' = ''John 3:16 (KJV)''"
  by code_simp


section \<open>Encoding and decoding a tree\<close>

lemma saveItem_xmlOf_gen:
  "saveItem be i p =
     (case p of Element pt pas pks \<Rightarrow> Element pt pas (pks @ xmlOf be i)
              | OtherNode \<Rightarrow> OtherNode)"
  "saveItems be cs p =
     (case p of Element pt pas pks \<Rightarrow> Element pt pas (pks @ concat (map (xmlOf be) cs))
              | OtherNode \<Rightarrow> OtherNode)"
proof (induction be i p and be cs p rule: saveItem_saveItems.induct)
  case (1 be a v t tt cs parentElement)
  then show ?case
    by (cases v; cases parentElement) (simp_all add: createElement_def Let_def)
next
  case (2 be parentElement)
  then show ?case by (cases parentElement) simp_all
next
  case (3 be c cs parentElement)
  then show ?case by (cases parentElement) simp_all
qed

lemma saveItem_xmlOf:
  "saveItem be i (Element pt pas pks) = Element pt pas (pks @ xmlOf be i)"
  "saveItems be cs (Element pt pas pks) = Element pt pas (pks @ concat (map (xmlOf be) cs))"
  by (simp_all add: saveItem_xmlOf_gen)

lemma serialize_xmlOf:
  "serializeTreeFromRootItem be root
     = Some (Element ''SwordBookmarks'' [(''syntaxVersion'', ''1'')]
               (concat (map (xmlOf be) (m_children root))))"
  by (simp add: serializeTreeFromRootItem_def createElement_def saveItem_xmlOf
      CURRENT_SYNTAX_VERSION_def)

lemma handleChildNodes_append:
  "handleChildNodes be (ks @ ks') n =
     (case handleChildNodes be ks n of
        (cs, n') \<Rightarrow> (case handleChildNodes be ks' n' of (cs', n'') \<Rightarrow> (cs @ cs', n'')))"
  by (induction ks arbitrary: n) (auto split: prod.splits)

lemma decode_children:
  assumes "\<And>c n. c \<in> set cs \<Longrightarrow> savable c \<Longrightarrow>
              \<exists>e i n'. xmlOf be c = [e] \<and> handleXmlElement be e n = (Some i, n')
                        \<and> shapeOf i = shapeOf c"
    and "list_all savable cs"
  shows "map shapeOf (fst (handleChildNodes be (concat (map (xmlOf be) cs)) n)) = map shapeOf cs"
  using assms
proof (induction cs arbitrary: n)
  case Nil
  then show ?case by simp
next
  case (Cons c cs)
  from Cons.prems(2) obtain e i n' where e: "xmlOf be c = [e]"
    "handleXmlElement be e n = (Some i, n')" "shapeOf i = shapeOf c"
    using Cons.prems(1) [of c n] by auto
  have "map shapeOf (fst (handleChildNodes be (concat (map (xmlOf be) cs)) n')) = map shapeOf cs"
    using Cons.prems by (intro Cons.IH) auto
  then show ?case using e by (auto split: prod.splits)
qed

lemma decode_item:
  "savable c \<Longrightarrow>
     \<exists>e i n'. xmlOf be c = [e] \<and> handleXmlElement be e n = (Some i, n')
               \<and> shapeOf i = shapeOf c"
proof (induction c arbitrary: n)
  case (Item a v t tt cs)
  show ?case
  proof (cases v)
    case IsBase
    then show ?thesis using Item.prems by simp
  next
    case IsFolder
    have "map shapeOf (fst (handleChildNodes be (concat (map (xmlOf be) cs)) (n + 1)))
            = map shapeOf cs"
      using Item IsFolder by (intro decode_children) auto
    then show ?thesis using IsFolder
      by (auto simp add: new_BookmarkFolder_def setText_def setChildren_def split: prod.splits)
  next
    case (IsBookmark k d m)
    then show ?thesis using Item.prems
      by (simp add: Let_def new_BookmarkItem_def setModule_def setKey_def setDescription_def
          setText_def)
  qed
qed

lemma decode_top_level:
  "list_all savable cs \<Longrightarrow>
     map (map_option shapeOf) (fst (loadTreeLoop be (concat (map (xmlOf be) cs)) n))
       = map (\<lambda>c. Some (shapeOf c)) cs"
proof (induction cs arbitrary: n)
  case Nil
  then show ?case by simp
next
  case (Cons c cs)
  from decode_item [of c be n] Cons.prems obtain e i n' where e: "xmlOf be c = [e]"
    "handleXmlElement be e n = (Some i, n')" "shapeOf i = shapeOf c"
    by auto
  then obtain t as ks where el: "e = Element t as ks" by (cases e) auto
  have "map (map_option shapeOf) (fst (loadTreeLoop be (concat (map (xmlOf be) cs)) n'))
       = map (\<lambda>c. Some (shapeOf c)) cs"
    using Cons.prems by (intro Cons.IH) auto
  then show ?case using e(1,3) e(2) [unfolded el] el
    by (auto simp del: handleXmlElement.simps split: prod.splits)
qed

text \<open>
  C1, as amended. Below the root the tree holds folders and bookmarks only, no bookmark has
  children and every bookmark has a text that is not empty. Then \<^verbatim>\<open>loadTree\<close> of a file
  that holds what \<^verbatim>\<open>serializeTreeFromRootItem\<close> writes for the root returns one item for
  every child of the root, in the same order, each with the shape of that child: the same
  kind, caption or title, key, description and module name, and children of the same shapes
  in the same order.
\<close>

theorem decode_encode:
  assumes "list_all savable (m_children root)"
    and "files s (effectiveName be fileName) = Some (Text (serializeTreeFromRootItem be root))"
  shows "map (map_option shapeOf) (fst (loadTree be s fileName))
           = map (\<lambda>c. Some (shapeOf c)) (m_children root)"
  using assms(2) decode_top_level [OF assms(1)]
  by (simp add: loadTree_def loadXmlFromFile_def effectiveName_def serialize_xmlOf Let_def)

theorem decode_encode_witness:
  "list_all savable (m_children exTree)
   \<and> (case save (exEnv True) ''copy.xml'' None (exModel exTree 5) of
         Inl e \<Rightarrow> False
       | Inr (b, s') \<Rightarrow>
           files s' (effectiveName (exEnv True) ''copy.xml'')
              = Some (Text (serializeTreeFromRootItem (exEnv True) exTree))
           \<and> map (map_option shapeOf) (fst (loadTree (exEnv True) s' ''copy.xml''))
               = map (\<lambda>c. Some (shapeOf c)) (m_children exTree))"
proof -
  have a: "list_all savable (m_children exTree)"
    by (simp add: exTree_def exFolderF_def exFolderG_def)
  obtain s' where s': "save (exEnv True) ''copy.xml'' None (exModel exTree 5) = Inr (True, s')"
    and f: "files s' (effectiveName (exEnv True) ''copy.xml'')
              = Some (Text (serializeTreeFromRootItem (exEnv True) exTree))"
    by (simp add: save_def itemAt_def item_def deref_def savePlainFile_def effectiveName_def
        exModel_def Let_def)
  show ?thesis
    using decode_encode [OF a f] a s' f by simp
qed

text \<open>
  The claim as stated, for any tree, fails for a bookmark with the empty text: no
  \<^verbatim>\<open>title\<close> attribute is written, and the bookmark read back has the text the
  constructor gives it.
\<close>

theorem decode_encode_untitled_counterexample:
  "(case save (exEnv True) [] None (exModel exUntitled 2) of
      Inl e \<Rightarrow> False
    | Inr (b, s') \<Rightarrow>
        files s' ''bookmarks.xml'' = Some (Text (serializeTreeFromRootItem (exEnv True) exUntitled))
        \<and> map (map_option shapeOf) (fst (loadTree (exEnv True) s' []))
            = [Some (Shape (IsBookmark ''John 3:16'' [] ''KJV'') '' (unknown)'' [])]
        \<and> map (\<lambda>c. Some (shapeOf c)) (m_children exUntitled)
            = [Some (Shape (IsBookmark ''John 3:16'' [] ''KJV'') [] [])])"
  by code_simp



section \<open>sortItems\<close>

subsection \<open>The example's sort meets the contract\<close>

lemma mset_insort_by: "mset (insort_by lt x xs) = add_mset x (mset xs)"
  by (induction xs) auto

lemma mset_insertionSort: "mset (insertionSort lt xs) = mset xs"
  by (induction xs) (auto simp: insertionSort_def mset_insort_by)

lemma set_insort_by: "set (insort_by lt x xs) = insert x (set xs)"
  by (metis mset_insort_by set_mset_add_mset_insert set_mset_mset)

lemma sorted_insort_by:
  assumes "strictWeakOrdering lt" and "sorted_wrt (\<lambda>x y. \<not> lt y x) xs"
  shows "sorted_wrt (\<lambda>x y. \<not> lt y x) (insort_by lt x xs)"
  using assms(2)
proof (induction xs)
  case Nil
  then show ?case by simp
next
  case (Cons y ys)
  have asym: "\<And>x y. lt x y \<Longrightarrow> \<not> lt y x"
    and trans: "\<And>x y z. \<not> lt y x \<Longrightarrow> \<not> lt z y \<Longrightarrow> \<not> lt z x"
    using assms(1) unfolding strictWeakOrdering_def by blast+
  show ?case
  proof (cases "lt y x")
    case True
    then show ?thesis using Cons asym by (auto simp: set_insort_by)
  next
    case False
    then show ?thesis using Cons trans by auto
  qed
qed

lemma sorted_insertionSort:
  assumes "strictWeakOrdering lt"
  shows "sorted_wrt (\<lambda>x y. \<not> lt y x) (insertionSort lt xs)"
proof (induction xs)
  case Nil
  then show ?case by (simp add: insertionSort_def)
next
  case (Cons x xs)
  have "insertionSort lt (x # xs) = insort_by lt x (insertionSort lt xs)"
    by (simp add: insertionSort_def)
  then show ?case using sorted_insort_by [OF assms Cons] by simp
qed

lemma sortContract_exEnv: "sortContract (exEnv dbg)"
  by (simp add: sortContract_def exEnv_def mset_insertionSort sorted_insertionSort)

subsection \<open>The comparator\<close>

lemma comparator_strictWeakOrdering:
  assumes "\<forall>a b. (localeAwareCompare be a b < 0) = (0 < localeAwareCompare be b a)"
    and "\<forall>a b c. localeAwareCompare be a b \<le> 0 \<longrightarrow> localeAwareCompare be b c \<le> 0
            \<longrightarrow> localeAwareCompare be a c \<le> 0"
  shows "strictWeakOrdering (comparator be order)"
proof -
  have flip: "\<And>a b. (localeAwareCompare be a b < 0) = (0 < localeAwareCompare be b a)"
    using assms(1) by blast
  have tr: "\<And>a b c. localeAwareCompare be a b \<le> 0 \<Longrightarrow> localeAwareCompare be b c \<le> 0
            \<Longrightarrow> localeAwareCompare be a c \<le> 0"
    using assms(2) by blast
  show ?thesis
  proof (cases order)
    case AscendingOrder
    have lt: "\<And>x y. comparator be order x y = (localeAwareCompare be (m_text x) (m_text y) < 0)"
      using AscendingOrder by (simp add: comparator_def BtBookmarksModelSortAscending_def)
    have le: "\<And>x y. (\<not> comparator be order y x) = (localeAwareCompare be (m_text x) (m_text y) \<le> 0)"
      unfolding lt flip by auto
    show ?thesis unfolding strictWeakOrdering_def
    proof (intro conjI allI impI)
      fix x y assume "comparator be order x y"
      then show "\<not> comparator be order y x" unfolding lt using flip [of "m_text x" "m_text y"] by auto
    next
      fix x y z assume "\<not> comparator be order y x" "\<not> comparator be order z y"
      then show "\<not> comparator be order z x" unfolding le by (rule tr)
    qed
  next
    case DescendingOrder
    have lt: "\<And>x y. comparator be order x y = (0 < localeAwareCompare be (m_text x) (m_text y))"
      using DescendingOrder by (simp add: comparator_def BtBookmarksModelSortDescending_def)
    have le: "\<And>x y. (\<not> comparator be order y x) = (localeAwareCompare be (m_text y) (m_text x) \<le> 0)"
      unfolding lt by auto
    show ?thesis unfolding strictWeakOrdering_def
    proof (intro conjI allI impI)
      fix x y assume "comparator be order x y"
      then show "\<not> comparator be order y x" unfolding lt using flip [of "m_text x" "m_text y"] by auto
    next
      fix x y z assume "\<not> comparator be order y x" "\<not> comparator be order z y"
      then show "\<not> comparator be order z x" unfolding le using tr by blast
    qed
  qed
qed

lemma comparator_inOrder:
  assumes "\<forall>a b. (localeAwareCompare be a b < 0) = (0 < localeAwareCompare be b a)"
    and "sorted_wrt (\<lambda>x y. \<not> comparator be order y x) xs"
  shows "inOrder be order xs"
proof -
  have flip: "\<And>a b. (localeAwareCompare be a b < 0) = (0 < localeAwareCompare be b a)"
    using assms(1) by blast
  have "\<And>x y. \<not> comparator be order y x \<Longrightarrow>
          (if order = AscendingOrder
           then localeAwareCompare be (m_text x) (m_text y) \<le> 0
           else 0 \<le> localeAwareCompare be (m_text x) (m_text y))"
  proof -
    fix x y assume n: "\<not> comparator be order y x"
    show "(if order = AscendingOrder
           then localeAwareCompare be (m_text x) (m_text y) \<le> 0
           else 0 \<le> localeAwareCompare be (m_text x) (m_text y))"
    proof (cases order)
      case AscendingOrder
      then have "\<not> localeAwareCompare be (m_text y) (m_text x) < 0"
        using n by (simp add: comparator_def BtBookmarksModelSortAscending_def)
      then show ?thesis using AscendingOrder flip [of "m_text y" "m_text x"] by auto
    next
      case DescendingOrder
      then have "\<not> 0 < localeAwareCompare be (m_text y) (m_text x)"
        using n by (simp add: comparator_def BtBookmarksModelSortDescending_def)
      then show ?thesis using DescendingOrder flip [of "m_text x" "m_text y"] by auto
    qed
  qed
  then have "\<And>x y. x \<in> set xs \<Longrightarrow> y \<in> set xs \<Longrightarrow> \<not> comparator be order y x \<Longrightarrow>
          (if order = AscendingOrder
           then localeAwareCompare be (m_text x) (m_text y) \<le> 0
           else 0 \<le> localeAwareCompare be (m_text x) (m_text y))"
    by blast
  then show ?thesis unfolding inOrder_def using assms(2) by (rule sorted_wrt_mono_rel)
qed

lemma inOrder_texts:
  "map m_text xs = map m_text ys \<Longrightarrow> inOrder be order xs = inOrder be order ys"
proof -
  let ?R = "\<lambda>a b. if order = AscendingOrder then localeAwareCompare be a b \<le> 0
                   else 0 \<le> localeAwareCompare be a b"
  have "\<And>zs. inOrder be order zs = sorted_wrt ?R (map m_text zs)"
    by (simp add: inOrder_def sorted_wrt_map)
  then show "map m_text xs = map m_text ys \<Longrightarrow> inOrder be order xs = inOrder be order ys"
    by simp
qed

subsection \<open>Sorting the children of one item\<close>

lemma subtree_Item: "subtree (Item a v t tt cs) = Item a v t tt cs # concat (map subtree cs)"
  unfolding subtree_def [abs_def] by simp

lemma rootItem_needSave [simp]: "m_rootItem (needSave s) = m_rootItem s"
  by (simp add: needSave_def)

lemma sortChildren_sel [simp]:
  "addr (sortChildren srt i) = addr i" "m_text (sortChildren srt i) = m_text i"
  "variant (sortChildren srt i) = variant i" "m_tooltip (sortChildren srt i) = m_tooltip i"
  "m_children (sortChildren srt i) = srt (m_children i)"
  by (simp_all add: sortChildren_def setChildren_def)

lemma updateItem_sel:
  "addr (updateItem p (sortChildren srt) t) = addr t"
  "m_text (updateItem p (sortChildren srt) t) = m_text t"
  by (cases t; simp)+

lemma rootItem_sortChildrenOf:
  "m_rootItem (sortChildrenOf be order p s)
     = updateItem p (sortChildren (stdSort be (comparator be order))) (m_rootItem s)"
proof -
  have "(\<lambda>i. setChildren (stdSort be (comparator be order) (m_children i)) i)
          = sortChildren (stdSort be (comparator be order))"
    by (simp add: sortChildren_def fun_eq_iff)
  then show ?thesis by (simp add: sortChildrenOf_def)
qed

lemma mset_concat_map_cong:
  "mset xs = mset ys \<Longrightarrow> mset (concat (map f xs)) = mset (concat (map f ys))"
proof -
  have "\<And>zs. mset (concat (map f zs)) = (\<Sum>z \<in># mset zs. mset (f z))"
    by (induct_tac zs) simp_all
  then show "mset xs = mset ys \<Longrightarrow> mset (concat (map f xs)) = mset (concat (map f ys))"
    by simp
qed

lemma filtered_concat_map:
  "(\<And>c. c \<in> set cs \<Longrightarrow>
       image_mset F (filter_mset P (mset (f (h c)))) = image_mset F (filter_mset P (mset (f c))))
     \<Longrightarrow> image_mset F (filter_mset P (mset (concat (map f (map h cs)))))
         = image_mset F (filter_mset P (mset (concat (map f cs))))"
  by (induction cs) simp_all

lemma image_concat_map:
  "(\<And>c. c \<in> set cs \<Longrightarrow> image_mset F (mset (f (h c))) = image_mset F (mset (f c)))
     \<Longrightarrow> image_mset F (mset (concat (map f (map h cs)))) = image_mset F (mset (concat (map f cs)))"
  by (induction cs) simp_all

lemma updateItem_itemInfo:
  assumes perm: "\<And>xs. mset (srt xs) = mset xs"
  shows "image_mset itemInfo (mset (subtree (updateItem p (sortChildren srt) t)))
           = image_mset itemInfo (mset (subtree t))"
proof (induction t)
  case (Item a v t tt cs)
  have old: "mset (subtree (Item a v t tt cs))
            = add_mset (Item a v t tt cs) (mset (concat (map subtree cs)))"
    by (simp only: subtree_Item mset.simps)
  show ?case
  proof (cases "a = p")
    case True
    have u: "updateItem p (sortChildren srt) (Item a v t tt cs) = Item a v t tt (srt cs)"
      using True by (simp add: sortChildren_def setChildren_def)
    have m: "mset (concat (map subtree (srt cs))) = mset (concat (map subtree cs))"
      by (rule mset_concat_map_cong) (rule perm)
    have new: "mset (subtree (updateItem p (sortChildren srt) (Item a v t tt cs)))
            = add_mset (Item a v t tt (srt cs)) (mset (concat (map subtree cs)))"
      by (simp only: u subtree_Item mset.simps m)
    have "mset (map addr (srt cs)) = mset (map addr cs)"
      using perm [of cs] by (metis mset_map)
    then have top: "itemInfo (Item a v t tt (srt cs)) = itemInfo (Item a v t tt cs)"
      by (simp add: itemInfo_def del: mset_map)
    show ?thesis unfolding new old using top by simp
  next
    case False
    let ?h = "updateItem p (sortChildren srt)"
    have u: "?h (Item a v t tt cs) = Item a v t tt (map ?h cs)"
      using False by simp
    have new: "mset (subtree (?h (Item a v t tt cs)))
            = add_mset (Item a v t tt (map ?h cs)) (mset (concat (map subtree (map ?h cs))))"
      by (simp only: u subtree_Item mset.simps)
    have top: "itemInfo (Item a v t tt (map ?h cs)) = itemInfo (Item a v t tt cs)"
      by (simp add: itemInfo_def o_def updateItem_sel)
    have rest: "image_mset itemInfo (mset (concat (map subtree (map ?h cs))))
              = image_mset itemInfo (mset (concat (map subtree cs)))"
      by (rule image_concat_map) (rule Item.IH)
    show ?thesis unfolding new old using top rest by simp
  qed
qed

lemma updateItem_itemRow:
  assumes perm: "\<And>xs. mset (srt xs) = mset xs"
  shows "image_mset itemRow
           (filter_mset (\<lambda>i. addr i \<noteq> p) (mset (subtree (updateItem p (sortChildren srt) t))))
         = image_mset itemRow (filter_mset (\<lambda>i. addr i \<noteq> p) (mset (subtree t)))"
proof (induction t)
  case (Item a v t tt cs)
  have old: "mset (subtree (Item a v t tt cs))
            = add_mset (Item a v t tt cs) (mset (concat (map subtree cs)))"
    by (simp only: subtree_Item mset.simps)
  show ?case
  proof (cases "a = p")
    case True
    have u: "updateItem p (sortChildren srt) (Item a v t tt cs) = Item a v t tt (srt cs)"
      using True by (simp add: sortChildren_def setChildren_def)
    have m: "mset (concat (map subtree (srt cs))) = mset (concat (map subtree cs))"
      by (rule mset_concat_map_cong) (rule perm)
    have new: "mset (subtree (updateItem p (sortChildren srt) (Item a v t tt cs)))
            = add_mset (Item a v t tt (srt cs)) (mset (concat (map subtree cs)))"
      by (simp only: u subtree_Item mset.simps m)
    show ?thesis unfolding new old using True by simp
  next
    case False
    let ?h = "updateItem p (sortChildren srt)"
    have u: "?h (Item a v t tt cs) = Item a v t tt (map ?h cs)"
      using False by simp
    have new: "mset (subtree (?h (Item a v t tt cs)))
            = add_mset (Item a v t tt (map ?h cs)) (mset (concat (map subtree (map ?h cs))))"
      by (simp only: u subtree_Item mset.simps)
    have top: "itemRow (Item a v t tt (map ?h cs)) = itemRow (Item a v t tt cs)"
      by (simp add: itemRow_def o_def updateItem_sel)
    have rest: "image_mset itemRow (filter_mset (\<lambda>i. addr i \<noteq> p)
                  (mset (concat (map subtree (map ?h cs)))))
              = image_mset itemRow (filter_mset (\<lambda>i. addr i \<noteq> p)
                  (mset (concat (map subtree cs))))"
      by (rule filtered_concat_map) (rule Item.IH)
    show ?thesis unfolding new old using False top rest by simp
  qed
qed

lemma distinct_subtree_child:
  assumes "distinct (map addr (subtree (Item a v t tt cs)))" and "c \<in> set cs"
  shows "distinct (map addr (subtree c))" and "a \<notin> addr ` set (subtree c)"
proof -
  from assms(2) obtain xs ys where cs: "cs = xs @ c # ys" by (meson split_list)
  from assms(1) show "distinct (map addr (subtree c))"
    by (simp add: subtree_Item cs)
  from assms(1) show "a \<notin> addr ` set (subtree c)"
    by (auto simp add: subtree_Item cs)
qed

lemma updateItem_sorted_at:
  assumes perm: "\<And>xs. mset (srt xs) = mset xs" and q: "\<And>xs. Q (srt xs)"
  shows "distinct (map addr (subtree t))
     \<Longrightarrow> g \<in> set (subtree (updateItem p (sortChildren srt) t)) \<Longrightarrow> addr g = p
     \<Longrightarrow> Q (m_children g)"
proof (induction t)
  case (Item a v t tt cs)
  show ?case
  proof (cases "a = p")
    case True
    have u: "updateItem p (sortChildren srt) (Item a v t tt cs) = Item a v t tt (srt cs)"
      using True by (simp add: sortChildren_def setChildren_def)
    have "set (concat (map subtree (srt cs))) = set (concat (map subtree cs))"
      using mset_concat_map_cong [OF perm, of subtree cs] by (metis set_mset_mset)
    moreover have "\<And>d. d \<in> set (concat (map subtree cs)) \<Longrightarrow> addr d \<noteq> p"
      using distinct_subtree_child(2) [OF Item.prems(1)] True by auto
    ultimately have "g = Item a v t tt (srt cs)"
      using Item.prems(2,3) unfolding u subtree_Item by auto
    then show ?thesis using q by simp
  next
    case False
    have u: "updateItem p (sortChildren srt) (Item a v t tt cs)
               = Item a v t tt (map (updateItem p (sortChildren srt)) cs)"
      using False by simp
    have "g \<noteq> Item a v t tt (map (updateItem p (sortChildren srt)) cs)"
      using Item.prems(3) False by (cases g) auto
    with Item.prems(2) obtain c where c: "c \<in> set cs"
      "g \<in> set (subtree (updateItem p (sortChildren srt) c))"
      unfolding u subtree_Item by auto
    show ?thesis
      by (rule Item.IH [OF c(1) distinct_subtree_child(1) [OF Item.prems(1) c(1)] c(2) Item.prems(3)])
  qed
qed

subsection \<open>The loops of sortItems\<close>

lemma mset_collectItems: "mset (collectItems q) = mset (concat (map subtree q))"
proof (induction q rule: collectItems.induct)
  case 1
  then show ?case by simp
next
  case (2 i queue)
  have "subtree i = i # concat (map subtree (m_children i))"
    by (cases i) (simp add: subtree_Item)
  then show ?case using 2 by simp
qed

lemma set_collectItems: "set (collectItems [t]) = set (subtree t)"
proof -
  have "mset (collectItems [t]) = mset (subtree t)"
    by (simp only: mset_collectItems) simp
  then show ?thesis by (metis set_mset_mset)
qed

lemma itemInfo_addrs:
  "image_mset itemInfo (mset xs) = image_mset itemInfo (mset ys)
     \<Longrightarrow> mset (map addr xs) = mset (map addr ys)"
proof -
  assume "image_mset itemInfo (mset xs) = image_mset itemInfo (mset ys)"
  then have "image_mset fst (image_mset itemInfo (mset xs))
           = image_mset fst (image_mset itemInfo (mset ys))"
    by simp
  then show ?thesis by (simp add: image_mset.compositionality o_def itemInfo_def)
qed

lemma itemRow_texts:
  "itemRow g = itemRow g' \<Longrightarrow> map m_text (m_children g) = map m_text (m_children g')"
proof -
  assume "itemRow g = itemRow g'"
  then have "map (\<lambda>c. (addr c, m_text c)) (m_children g)
           = map (\<lambda>c. (addr c, m_text c)) (m_children g')"
    by (simp add: itemRow_def)
  then have "map snd (map (\<lambda>c. (addr c, m_text c)) (m_children g))
           = map snd (map (\<lambda>c. (addr c, m_text c)) (m_children g'))"
    by (rule arg_cong)
  then show ?thesis by (simp add: o_def)
qed

lemma sort_step:
  assumes perm: "\<And>xs. mset (srt xs) = mset xs" and q: "\<And>xs. inOrder be order (srt xs)"
    and d: "distinct (map addr (subtree t))"
    and inv: "\<forall>g \<in> set (subtree t). addr g \<in> A \<longrightarrow> inOrder be order (m_children g)"
  shows "\<forall>g \<in> set (subtree (updateItem p (sortChildren srt) t)).
           addr g \<in> insert p A \<longrightarrow> inOrder be order (m_children g)"
proof (intro ballI impI)
  fix g
  assume g: "g \<in> set (subtree (updateItem p (sortChildren srt) t))" and a: "addr g \<in> insert p A"
  show "inOrder be order (m_children g)"
  proof (cases "addr g = p")
    case True
    show ?thesis
      by (rule updateItem_sorted_at [of srt "inOrder be order", OF perm q d g True])
  next
    case False
    then have "itemRow g \<in># image_mset itemRow
        (filter_mset (\<lambda>i. addr i \<noteq> p) (mset (subtree (updateItem p (sortChildren srt) t))))"
      using g by auto
    then have "itemRow g \<in># image_mset itemRow
        (filter_mset (\<lambda>i. addr i \<noteq> p) (mset (subtree t)))"
      by (simp only: updateItem_itemRow [of srt, OF perm])
    then obtain g0 where g0: "g0 \<in> set (subtree t)" "itemRow g0 = itemRow g" by auto
    then have "addr g0 = addr g" by (simp add: itemRow_def)
    then have "inOrder be order (m_children g0)" using inv g0(1) a False by auto
    then show ?thesis using inOrder_texts [OF itemRow_texts [OF g0(2)]] by simp
  qed
qed

lemma sort_fold:
  assumes perm: "\<And>xs. mset (stdSort be (comparator be order) xs) = mset xs"
    and q: "\<And>xs. inOrder be order (stdSort be (comparator be order) xs)"
  shows "distinct (map addr (subtree (m_rootItem s)))
    \<Longrightarrow> \<forall>g \<in> set (subtree (m_rootItem s)). addr g \<in> A \<longrightarrow> inOrder be order (m_children g)
    \<Longrightarrow> (\<forall>g \<in> set (subtree (m_rootItem (fold (sortChildrenOf be order) ps s))).
            addr g \<in> A \<union> set ps \<longrightarrow> inOrder be order (m_children g))
        \<and> image_mset itemInfo (mset (subtree (m_rootItem (fold (sortChildrenOf be order) ps s))))
            = image_mset itemInfo (mset (subtree (m_rootItem s)))"
proof (induction ps arbitrary: s A)
  case Nil
  then show ?case by simp
next
  case (Cons p ps)
  let ?srt = "stdSort be (comparator be order)"
  let ?s1 = "sortChildrenOf be order p s"
  have r1: "m_rootItem ?s1 = updateItem p (sortChildren ?srt) (m_rootItem s)"
    by (rule rootItem_sortChildrenOf)
  have info: "image_mset itemInfo (mset (subtree (m_rootItem ?s1)))
                = image_mset itemInfo (mset (subtree (m_rootItem s)))"
    unfolding r1 by (rule updateItem_itemInfo [of ?srt, OF perm])
  have "mset (map addr (subtree (m_rootItem ?s1))) = mset (map addr (subtree (m_rootItem s)))"
    by (rule itemInfo_addrs [OF info])
  then have d1: "distinct (map addr (subtree (m_rootItem ?s1)))"
    using Cons.prems(1) by (metis mset_eq_imp_distinct_iff)
  have inv1: "\<forall>g \<in> set (subtree (m_rootItem ?s1)).
                addr g \<in> insert p A \<longrightarrow> inOrder be order (m_children g)"
    unfolding r1 by (rule sort_step [of ?srt, OF perm q Cons.prems(1) Cons.prems(2)])
  from Cons.IH [OF d1 inv1] info show ?case by simp
qed

lemma itemAt_root:
  assumes "itemAt be s parent = Inr f" and "addr f = addr (m_rootItem s)"
  shows "f = m_rootItem s"
proof -
  from assms(1) obtain p where p: "findItem p (m_rootItem s) = Some f"
    by (auto simp: itemAt_def deref_def split: sum.splits option.splits)
  then have "p = addr (m_rootItem s)" using findItem_addr(1) assms(2) by fastforce
  then show ?thesis using p by simp
qed

lemma itemAt_find:
  assumes "itemAt be s parent = Inr f"
  shows "findItem (addr f) (m_rootItem s) = Some f"
proof -
  from assms(1) obtain p where p: "findItem p (m_rootItem s) = Some f"
    by (auto simp: itemAt_def deref_def split: sum.splits option.splits)
  then show ?thesis using findItem_addr(1) by fastforce
qed

text \<open>
  C8. The items of the tree have addresses of their own, \<open>parent\<close> points to a folder
  \<open>f\<close>, \<^verbatim>\<open>std::sort\<close> keeps what the standard promises, and
  \<^verbatim>\<open>localeAwareCompare\<close> orders the strings (its sign flips when the arguments are
  swapped, and "not greater" is transitive). Then \<^verbatim>\<open>sortItems\<close> returns. When \<open>f\<close> is
  the root, the children of every folder of the whole tree are in the order asked for,
  ascending or descending by \<^verbatim>\<open>localeAwareCompare\<close> of their texts, and every item has
  kept its address, kind, text, tooltip and the same children. When \<open>f\<close> is another
  folder, the item at its address has the kind, text and tooltip of \<open>f\<close>, its children
  are the children of \<open>f\<close> rearranged into that order, and every other item of the tree
  has kept its children in the order they had.
\<close>

theorem sortItems_sorts:
  assumes "distinct (map addr (subtree (m_rootItem s)))"
    and "itemAt be s parent = Inr f" and "variant f = IsFolder"
    and "sortContract be"
    and "\<forall>a b. (localeAwareCompare be a b < 0) = (0 < localeAwareCompare be b a)"
    and "\<forall>a b c. localeAwareCompare be a b \<le> 0 \<longrightarrow> localeAwareCompare be b c \<le> 0
            \<longrightarrow> localeAwareCompare be a c \<le> 0"
  shows "\<exists>s'. sortItems be parent order s = Inr s' \<and>
     (if addr f = addr (m_rootItem s)
      then (\<forall>g \<in> set (subtree (m_rootItem s')).
              variant g = IsFolder \<longrightarrow> inOrder be order (m_children g))
           \<and> image_mset itemInfo (mset (subtree (m_rootItem s')))
               = image_mset itemInfo (mset (subtree (m_rootItem s)))
      else (\<exists>f'. findItem (addr f) (m_rootItem s') = Some f'
              \<and> variant f' = variant f \<and> m_text f' = m_text f \<and> m_tooltip f' = m_tooltip f
              \<and> mset (m_children f') = mset (m_children f)
              \<and> inOrder be order (m_children f'))
           \<and> image_mset itemRow
                (filter_mset (\<lambda>g. addr g \<noteq> addr f) (mset (subtree (m_rootItem s'))))
               = image_mset itemRow
                   (filter_mset (\<lambda>g. addr g \<noteq> addr f) (mset (subtree (m_rootItem s)))))"
proof -
  let ?srt = "stdSort be (comparator be order)"
  have swo: "strictWeakOrdering (comparator be order)"
    by (rule comparator_strictWeakOrdering [OF assms(5,6)])
  have perm: "\<And>xs. mset (?srt xs) = mset xs"
    using assms(4) swo unfolding sortContract_def by blast
  have "\<And>xs. sorted_wrt (\<lambda>x y. \<not> comparator be order y x) (?srt xs)"
    using assms(4) swo unfolding sortContract_def by blast
  then have q: "\<And>xs. inOrder be order (?srt xs)"
    by (rule comparator_inOrder [OF assms(5)])
  show ?thesis
  proof (cases "addr f = addr (m_rootItem s)")
    case True
    let ?t = "m_rootItem s"
    let ?ps = "map addr (filter isFolder (collectItems [?t]))"
    let ?s' = "fold (sortChildrenOf be order) ?ps s"
    have f: "f = ?t" by (rule itemAt_root [OF assms(2) True])
    have run: "sortItems be parent order s = Inr ?s'"
      using assms(2,3) f by (simp add: sortItems_def del: collectItems.simps)
    have "\<forall>g \<in> set (subtree ?t). addr g \<in> {} \<longrightarrow> inOrder be order (m_children g)" by simp
    from sort_fold [of be order s "{}" ?ps, OF perm q assms(1) this]
    have inv: "\<forall>g \<in> set (subtree (m_rootItem ?s')).
                 addr g \<in> set ?ps \<longrightarrow> inOrder be order (m_children g)"
      and info: "image_mset itemInfo (mset (subtree (m_rootItem ?s')))
                   = image_mset itemInfo (mset (subtree ?t))"
      by (simp_all del: collectItems.simps)
    have p1: "\<forall>g \<in> set (subtree (m_rootItem ?s')).
                variant g = IsFolder \<longrightarrow> inOrder be order (m_children g)"
    proof (intro ballI impI)
      fix g assume g: "g \<in> set (subtree (m_rootItem ?s'))" and v: "variant g = IsFolder"
      from g have "itemInfo g \<in># image_mset itemInfo (mset (subtree (m_rootItem ?s')))"
        by simp
      then have "itemInfo g \<in># image_mset itemInfo (mset (subtree ?t))"
        by (simp only: info)
      then obtain g0 where g0: "g0 \<in> set (subtree ?t)" "itemInfo g0 = itemInfo g" by auto
      then have e: "addr g0 = addr g" and v0: "variant g0 = IsFolder"
        using v by (simp_all add: itemInfo_def)
      have "g0 \<in> set (filter isFolder (collectItems [?t]))"
        using g0(1) v0 set_collectItems [of ?t]
        by (simp add: isFolder_def del: collectItems.simps)
      then have "addr g0 \<in> set ?ps" by (simp del: collectItems.simps)
      then have "addr g \<in> set ?ps" by (simp only: e)
      then show "inOrder be order (m_children g)" using inv g by blast
    qed
    show ?thesis using True run p1 info by (simp del: collectItems.simps)
  next
    case False
    let ?s' = "sortChildrenOf be order (addr f) s"
    have run: "sortItems be parent order s = Inr ?s'"
      using assms(2,3) False by (simp add: sortItems_def)
    have root: "m_rootItem ?s' = updateItem (addr f) (sortChildren ?srt) (m_rootItem s)"
      by (rule rootItem_sortChildrenOf)
    have a: "findItem (addr f) (m_rootItem ?s') = Some (sortChildren ?srt f)"
      unfolding root by (rule findItem_updateItem(1) [OF itemAt_find [OF assms(2)]]) simp
    have b: "\<exists>f'. findItem (addr f) (m_rootItem ?s') = Some f'
              \<and> variant f' = variant f \<and> m_text f' = m_text f \<and> m_tooltip f' = m_tooltip f
              \<and> mset (m_children f') = mset (m_children f)
              \<and> inOrder be order (m_children f')"
      using a perm q by simp
    have d: "image_mset itemRow
                (filter_mset (\<lambda>g. addr g \<noteq> addr f) (mset (subtree (m_rootItem ?s'))))
               = image_mset itemRow
                   (filter_mset (\<lambda>g. addr g \<noteq> addr f) (mset (subtree (m_rootItem s))))"
      unfolding root by (rule updateItem_itemRow [of ?srt, OF perm])
    show ?thesis using False run b d by simp
  qed
qed

lemma compareStrings_props:
  "\<forall>a b. (compareStrings a b < 0) = (0 < compareStrings b a)"
  "\<forall>a b c. compareStrings a b \<le> 0 \<longrightarrow> compareStrings b c \<le> 0 \<longrightarrow> compareStrings a c \<le> 0"
  by (auto simp: compareStrings_def split: if_splits)


theorem sortItems_sorts_witness:
  "distinct (map addr (subtree (m_rootItem (exModel exTree 5))))
   \<and> sortContract (exEnv True)
   \<and> itemAt (exEnv True) (exModel exTree 5) None = Inr exTree
   \<and> itemAt (exEnv True) (exModel exTree 5) (Some 1) = Inr exFolderF
   \<and> variant exTree = IsFolder \<and> variant exFolderF = IsFolder
   \<and> (\<exists>s'. sortItems (exEnv True) None AscendingOrder (exModel exTree 5) = Inr s'
         \<and> (\<forall>g \<in> set (subtree (m_rootItem s')).
                variant g = IsFolder \<longrightarrow> inOrder (exEnv True) AscendingOrder (m_children g))
         \<and> image_mset itemInfo (mset (subtree (m_rootItem s')))
             = image_mset itemInfo (mset (subtree exTree)))
   \<and> (\<exists>s'. sortItems (exEnv True) (Some 1) DescendingOrder (exModel exTree 5) = Inr s'
         \<and> (\<exists>f'. findItem 1 (m_rootItem s') = Some f'
                \<and> mset (m_children f') = mset (m_children exFolderF)
                \<and> inOrder (exEnv True) DescendingOrder (m_children f'))
         \<and> image_mset itemRow
              (filter_mset (\<lambda>g. addr g \<noteq> 1) (mset (subtree (m_rootItem s'))))
             = image_mset itemRow (filter_mset (\<lambda>g. addr g \<noteq> 1) (mset (subtree exTree))))
   \<and> (case sortItems (exEnv True) None AscendingOrder (exModel exTree 5) of
         Inl e \<Rightarrow> False
       | Inr s' \<Rightarrow>
           m_rootItem s'
             = Item 0 IsFolder ''Root'' []
                 [Item 4 (IsBookmark ''Gen 1:1'' [] ''KJV'') ''Beginning'' [] [],
                  Item 1 IsFolder ''F'' []
                    [Item 2 IsFolder ''G'' [] [],
                     Item 3 (IsBookmark ''John 3:16'' ''d'' ''KJV'') ''Key Verse'' [] []]])
   \<and> (case sortItems (exEnv True) None DescendingOrder (exModel exTree 5) of
         Inl e \<Rightarrow> False
       | Inr s' \<Rightarrow>
           m_rootItem s'
             = Item 0 IsFolder ''Root'' []
                 [Item 1 IsFolder ''F'' []
                    [Item 3 (IsBookmark ''John 3:16'' ''d'' ''KJV'') ''Key Verse'' [] [],
                     Item 2 IsFolder ''G'' [] []],
                  Item 4 (IsBookmark ''Gen 1:1'' [] ''KJV'') ''Beginning'' [] []])"
proof -
  let ?s = "exModel exTree 5"
  have r: "m_rootItem ?s = exTree" by (simp add: exModel_def)
  have a: "distinct (map addr (subtree (m_rootItem ?s)))"
    unfolding r by (simp add: exTree_def exFolderF_def exFolderG_def subtree_def)
  have b: "itemAt (exEnv True) ?s None = Inr exTree"
    by (simp add: itemAt_def item_def deref_def r)
  have b1: "itemAt (exEnv True) ?s (Some 1) = Inr exFolderF"
    by (simp add: itemAt_def item_def deref_def BT_ASSERT_def exModel_def exTree_def
        exFolderF_def exFolderG_def)
  have c: "variant exTree = IsFolder" and c1: "variant exFolderF = IsFolder"
    by (simp_all add: exTree_def exFolderF_def)
  have k: "sortContract (exEnv True)" by (rule sortContract_exEnv)
  have l: "localeAwareCompare (exEnv True) = compareStrings" by (simp add: exEnv_def)
  have h1: "\<forall>a b. (localeAwareCompare (exEnv True) a b < 0)
                 = (0 < localeAwareCompare (exEnv True) b a)"
    and h2: "\<forall>a b c. localeAwareCompare (exEnv True) a b \<le> 0
                 \<longrightarrow> localeAwareCompare (exEnv True) b c \<le> 0
                 \<longrightarrow> localeAwareCompare (exEnv True) a c \<le> 0"
    unfolding l by (rule compareStrings_props)+
  have ad: "addr exTree = 0" "addr exFolderF = 1"
    by (simp_all add: exTree_def exFolderF_def)
  have e1: "(case sortItems (exEnv True) None AscendingOrder (exModel exTree 5) of
         Inl e \<Rightarrow> False
       | Inr s' \<Rightarrow>
           m_rootItem s'
             = Item 0 IsFolder ''Root'' []
                 [Item 4 (IsBookmark ''Gen 1:1'' [] ''KJV'') ''Beginning'' [] [],
                  Item 1 IsFolder ''F'' []
                    [Item 2 IsFolder ''G'' [] [],
                     Item 3 (IsBookmark ''John 3:16'' ''d'' ''KJV'') ''Key Verse'' [] []]])"
    by code_simp
  have e2: "(case sortItems (exEnv True) None DescendingOrder (exModel exTree 5) of
         Inl e \<Rightarrow> False
       | Inr s' \<Rightarrow>
           m_rootItem s'
             = Item 0 IsFolder ''Root'' []
                 [Item 1 IsFolder ''F'' []
                    [Item 3 (IsBookmark ''John 3:16'' ''d'' ''KJV'') ''Key Verse'' [] [],
                     Item 2 IsFolder ''G'' [] []],
                  Item 4 (IsBookmark ''Gen 1:1'' [] ''KJV'') ''Beginning'' [] []])"
    by code_simp
  from sortItems_sorts [OF a b c k h1 h2, of AscendingOrder] r
  have w1: "\<exists>s'. sortItems (exEnv True) None AscendingOrder ?s = Inr s'
         \<and> (\<forall>g \<in> set (subtree (m_rootItem s')).
                variant g = IsFolder \<longrightarrow> inOrder (exEnv True) AscendingOrder (m_children g))
         \<and> image_mset itemInfo (mset (subtree (m_rootItem s')))
             = image_mset itemInfo (mset (subtree exTree))"
    by simp
  from sortItems_sorts [OF a b1 c1 k h1 h2, of DescendingOrder] r ad
  have w2: "\<exists>s'. sortItems (exEnv True) (Some 1) DescendingOrder ?s = Inr s'
         \<and> (\<exists>f'. findItem 1 (m_rootItem s') = Some f'
                \<and> mset (m_children f') = mset (m_children exFolderF)
                \<and> inOrder (exEnv True) DescendingOrder (m_children f'))
         \<and> image_mset itemRow
              (filter_mset (\<lambda>g. addr g \<noteq> 1) (mset (subtree (m_rootItem s'))))
             = image_mset itemRow (filter_mset (\<lambda>g. addr g \<noteq> 1) (mset (subtree exTree)))"
    by auto
  from a k b b1 c c1 w1 w2 e1 e2 show ?thesis by (intro conjI)
qed

end
